(* ===== verification/Neo_Prelude.thy ===== *)
theory Neo_Prelude
  imports Main "HOL-Library.Word" "HOL-Library.Multiset"
begin

text \<open>
  Shared vocabulary of the development: names for the machine integers of the Rust code,
  little-endian conversion (\<^verbatim>\<open>to_le_bytes\<close> / \<^verbatim>\<open>from_le_bytes\<close> of the Rust standard
  library), saturating and checked arithmetic, and the result-and-state type that models a
  Rust method taking \<^verbatim>\<open>&mut self\<close> and returning \<^verbatim>\<open>Result\<close>: the state is returned on
  both outcomes, because Rust keeps every mutation made before an early \<^verbatim>\<open>Err\<close> return.
\<close>

named_theorems wire_simps \<open>equations that evaluate writers and readers on concatenated input\<close>
named_theorems run_simps \<open>equations that evaluate the result-and-state combinators\<close>

section \<open>Machine integers and bytes\<close>

type_synonym byte = "8 word"
type_synonym u16 = "16 word"
type_synonym u32 = "32 word"
type_synonym u64 = "64 word"
type_synonym bytes = "byte list"

fun nat_to_le :: "nat \<Rightarrow> nat \<Rightarrow> bytes" where
  "nat_to_le 0 x = []"
| "nat_to_le (Suc n) x = of_nat (x mod 256) # nat_to_le n (x div 256)"

fun le_to_nat :: "bytes \<Rightarrow> nat" where
  "le_to_nat [] = 0"
| "le_to_nat (b # bs) = unat b + 256 * le_to_nat bs"

definition to_le_bytes :: "'a::len word \<Rightarrow> bytes" where
  "to_le_bytes w = nat_to_le (LENGTH('a) div 8) (unat w)"

definition from_le_bytes :: "bytes \<Rightarrow> 'a::len word" where
  "from_le_bytes bs = of_nat (le_to_nat bs)"

lemma length_nat_to_le [simp]: "length (nat_to_le n x) = n"
  by (induction n arbitrary: x) auto

lemma length_to_le_bytes [simp]: "length (to_le_bytes (w :: 'a::len word)) = LENGTH('a) div 8"
  by (simp add: to_le_bytes_def)

lemma unat_byte_lt [simp]: "unat (b :: byte) < 256"
  using unsigned_less [of b] by simp

lemma unat_of_nat_byte [simp]: "unat (of_nat (x mod 256) :: byte) = x mod 256"
  by (simp add: unat_of_nat)

lemma le_to_nat_bound: "le_to_nat bs < 256 ^ length bs"
proof (induction bs)
  case Nil
  then show ?case by simp
next
  case (Cons b bs)
  have "unat b + 256 * le_to_nat bs < 256 + 256 * le_to_nat bs"
    by simp
  also have "\<dots> = 256 * Suc (le_to_nat bs)" by simp
  also have "\<dots> \<le> 256 * 256 ^ length bs"
    using Cons.IH by (intro mult_le_mono) auto
  finally show ?case by simp
qed

lemma le_to_nat_nat_to_le: "le_to_nat (nat_to_le n x) = x mod 256 ^ n"
proof (induction n arbitrary: x)
  case 0
  then show ?case by simp
next
  case (Suc n)
  have "x mod 256 ^ Suc n = 256 * (x div 256 mod 256 ^ n) + x mod 256"
    by (simp add: mod_mult2_eq)
  with Suc.IH show ?case by simp
qed

lemma nat_to_le_le_to_nat: "nat_to_le (length bs) (le_to_nat bs) = bs"
proof (induction bs)
  case Nil
  then show ?case by simp
next
  case (Cons b bs)
  have "(unat b + 256 * le_to_nat bs) mod 256 = unat b"
    using unat_byte_lt [of b] by (simp add: mod_mult_self2)
  moreover have "(unat b + 256 * le_to_nat bs) div 256 = le_to_nat bs"
    using unat_byte_lt [of b] by simp
  ultimately show ?case using Cons.IH by simp
qed

lemma pow_256_length:
  assumes "8 dvd LENGTH('a::len)"
  shows "(256::nat) ^ (LENGTH('a) div 8) = 2 ^ LENGTH('a)"
proof -
  have "(256::nat) = 2 ^ 8" by simp
  then have "(256::nat) ^ (LENGTH('a) div 8) = 2 ^ (8 * (LENGTH('a) div 8))"
    by (metis power_mult)
  with assms show ?thesis by simp
qed

lemma from_to_le_bytes [wire_simps]:
  assumes "8 dvd LENGTH('a::len)"
  shows "from_le_bytes (to_le_bytes (w :: 'a word)) = w"
  using unsigned_less [of w]
  by (simp add: from_le_bytes_def to_le_bytes_def le_to_nat_nat_to_le
      pow_256_length [OF assms])

lemma to_from_le_bytes:
  assumes "8 dvd LENGTH('a::len)" and "length bs = LENGTH('a) div 8"
  shows "to_le_bytes (from_le_bytes bs :: 'a word) = bs"
proof -
  have "le_to_nat bs < 2 ^ LENGTH('a)"
    using le_to_nat_bound [of bs] assms(2) pow_256_length [OF assms(1)] by simp
  then have "unat (of_nat (le_to_nat bs) :: 'a word) = le_to_nat bs"
    by (simp add: unat_of_nat)
  then show ?thesis
    using nat_to_le_le_to_nat [of bs] assms(2)
    by (simp add: from_le_bytes_def to_le_bytes_def)
qed

lemma to_le_bytes_inject:
  assumes "8 dvd LENGTH('a::len)"
  shows "to_le_bytes (v :: 'a word) = to_le_bytes w \<longleftrightarrow> v = w"
  using from_to_le_bytes [OF assms] by metis

lemma unat_ucast_mod: "unat (ucast (w :: 'a::len word) :: 'b::len word) = unat w mod 2 ^ LENGTH('b)"
  by (simp add: unsigned_ucast_eq take_bit_eq_mod)

subsection \<open>Saturating and checked arithmetic\<close>

definition saturating_add :: "'a::len word \<Rightarrow> 'a word \<Rightarrow> 'a word" where
  "saturating_add a b = (if unat a + unat b < 2 ^ LENGTH('a) then a + b else - 1)"

definition saturating_sub :: "'a::len word \<Rightarrow> 'a word \<Rightarrow> 'a word" where
  "saturating_sub a b = (if b \<le> a then a - b else 0)"

definition saturating_mul :: "'a::len word \<Rightarrow> 'a word \<Rightarrow> 'a word" where
  "saturating_mul a b = (if unat a * unat b < 2 ^ LENGTH('a) then a * b else - 1)"

definition checked_add :: "'a::len word \<Rightarrow> 'a word \<Rightarrow> 'a word option" where
  "checked_add a b = (if unat a + unat b < 2 ^ LENGTH('a) then Some (a + b) else None)"

lemma unat_minus_one_word: "unat (- 1 :: 'a::len word) = 2 ^ LENGTH('a) - 1"
  by (simp add: unsigned_minus_1_eq_mask mask_eq_exp_minus_1)

lemma unat_saturating_add:
  "unat (saturating_add a b) = min (unat a + unat b) (2 ^ LENGTH('a) - 1)"
  for a b :: "'a::len word"
  by (auto simp: saturating_add_def unat_minus_one_word unat_word_ariths)

lemma unat_saturating_sub: "unat (saturating_sub a b) = unat a - unat b"
  by (auto simp: saturating_sub_def word_le_nat_alt unat_sub)

lemma unat_saturating_mul:
  "unat (saturating_mul a b) = min (unat a * unat b) (2 ^ LENGTH('a) - 1)"
  for a b :: "'a::len word"
  by (auto simp: saturating_mul_def unat_minus_one_word unat_word_ariths)

lemma checked_add_Some:
  "checked_add a b = Some c \<longleftrightarrow> unat a + unat b < 2 ^ LENGTH('a) \<and> c = a + b"
  for a b :: "'a::len word"
  by (auto simp: checked_add_def)

section \<open>Results with state\<close>

type_synonym ('s, 'e, 'a) run = "'s \<Rightarrow> ('e + 'a) \<times> 's"

definition ok :: "'a \<Rightarrow> ('s, 'e, 'a) run" where
  "ok x s = (Inr x, s)"

definition err :: "'e \<Rightarrow> ('s, 'e, 'a) run" where
  "err e s = (Inl e, s)"

text \<open>The \<^verbatim>\<open>?\<close> operator: stop at an error, keeping the state reached so far.\<close>

definition and_then :: "('s, 'e, 'a) run \<Rightarrow> ('a \<Rightarrow> ('s, 'e, 'b) run) \<Rightarrow> ('s, 'e, 'b) run" where
  "and_then m k s = (case m s of (Inl e, s') \<Rightarrow> (Inl e, s') | (Inr x, s') \<Rightarrow> k x s')"

text \<open>\<^verbatim>\<open>map_err\<close>: replace the error of a fallible call.\<close>

definition map_err :: "('e \<Rightarrow> 'f) \<Rightarrow> ('s, 'e, 'a) run \<Rightarrow> ('s, 'f, 'a) run" where
  "map_err f m s = (case m s of (Inl e, s') \<Rightarrow> (Inl (f e), s') | (Inr x, s') \<Rightarrow> (Inr x, s'))"

lemma ok_run [run_simps]: "ok x s = (Inr x, s)"
  by (simp add: ok_def)

lemma err_run [run_simps]: "err e s = (Inl e, s)"
  by (simp add: err_def)

lemma and_then_Inr [run_simps]: "m s = (Inr x, s') \<Longrightarrow> and_then m k s = k x s'"
  by (simp add: and_then_def)

lemma and_then_Inl [run_simps]: "m s = (Inl e, s') \<Longrightarrow> and_then m k s = (Inl e, s')"
  by (simp add: and_then_def)

lemma map_err_Inr [run_simps]: "m s = (Inr x, s') \<Longrightarrow> map_err f m s = (Inr x, s')"
  by (simp add: map_err_def)

lemma map_err_Inl [run_simps]: "m s = (Inl e, s') \<Longrightarrow> map_err f m s = (Inl (f e), s')"
  by (simp add: map_err_def)

lemma and_then_cases:
  assumes "and_then m k s = (r, s')"
  obtains (fail) e where "m s = (Inl e, s')" "r = Inl e"
  | (pass) x s1 where "m s = (Inr x, s1)" "k x s1 = (r, s')"
proof (cases "m s")
  case (Pair r1 s1)
  with assms show ?thesis
    by (cases r1) (auto simp: and_then_def intro: that)
qed

lemma and_then_assoc: "and_then (and_then m k) l s = and_then m (\<lambda>x. and_then (k x) l) s"
  by (auto simp: and_then_def split: prod.splits sum.splits)

section \<open>Step contracts\<close>

text \<open>
  A contract of a state-changing operation is a relation between the state before and the
  state after. When the relation is a preorder it is inherited by sequencing, so it is
  enough to establish it for the primitive updates.
\<close>

definition keeps :: "('s \<Rightarrow> 's \<Rightarrow> bool) \<Rightarrow> ('s, 'e, 'a) run \<Rightarrow> bool" where
  "keeps R m \<longleftrightarrow> (\<forall>s. R s (snd (m s)))"

locale step_contract =
  fixes R :: "'s \<Rightarrow> 's \<Rightarrow> bool"
  assumes contract_refl: "R s s"
    and contract_trans: "R s t \<Longrightarrow> R t u \<Longrightarrow> R s u"
begin

lemma ok_contract: "R s (snd (ok x s))"
  by (simp add: ok_def contract_refl)

lemma err_contract: "R s (snd (err e s))"
  by (simp add: err_def contract_refl)

lemma and_then_contract:
  assumes "R s (snd (m s))"
    and "\<And>x s'. m s = (Inr x, s') \<Longrightarrow> R s' (snd (k x s'))"
  shows "R s (snd (and_then m k s))"
proof (cases "m s")
  case (Pair r s')
  with assms show ?thesis
    by (cases r) (auto simp: and_then_def intro: contract_trans)
qed

lemma map_err_contract: "R s (snd (m s)) \<Longrightarrow> R s (snd (map_err f m s))"
  by (auto simp: map_err_def split: prod.splits sum.splits)

lemma keeps_ok: "keeps R (ok x)"
  by (simp add: keeps_def ok_contract)

lemma keeps_and_then:
  "keeps R m \<Longrightarrow> (\<And>x. keeps R (k x)) \<Longrightarrow> keeps R (and_then m k)"
  by (auto simp: keeps_def intro: and_then_contract)

lemma fold_contract:
  assumes "\<And>x s. x \<in> set xs \<Longrightarrow> R s (f x s)"
  shows "R s (fold f xs s)"
  using assms
  by (induction xs arbitrary: s) (auto intro: contract_refl contract_trans)

end

section \<open>Lists\<close>

lemma sort_key_distinct_perm:
  assumes "mset xs = mset ys" and "inj_on f (set xs)"
  shows "sort_key f xs = sort_key f ys"
proof (rule properties_for_sort_key)
  show "mset (sort_key f ys) = mset xs" using assms(1) by simp
next
  fix k assume "k \<in> set (sort_key f ys)"
  then have k: "k \<in> set xs" using assms(1) by (metis mset_eq_setD set_sort)
  have same: "filter (\<lambda>y. f k = f y) zs = filter (\<lambda>y. k = y) zs" if "set zs = set xs" for zs
    using assms(2) k that by (intro filter_cong) (auto dest: inj_onD)
  have "set ys = set xs" using assms(1) by (metis mset_eq_setD)
  then have "filter (\<lambda>y. f k = f y) (sort_key f ys) = filter (\<lambda>y. k = y) (sort_key f ys)"
    by (intro same) simp
  also have "\<dots> = filter (\<lambda>y. k = y) xs"
    using assms(1) by (metis filter_eq_replicate_mset mset_sort replicate_count_mset_eq_filter_eq)
  also have "\<dots> = filter (\<lambda>y. f k = f y) xs" by (simp add: same)
  finally show "filter (\<lambda>y. f k = f y) (sort_key f ys) = filter (\<lambda>y. f k = f y) xs" .
qed simp

end
