(* ===== verification/Neo_HashMap.thy ===== *)
theory Neo_HashMap
  imports Neo_Prelude
begin

text \<open>
  The \<^verbatim>\<open>HashMap\<close> and \<^verbatim>\<open>HashSet\<close> of the Rust standard library. A map is an association list
  with distinct keys. The standard library leaves the iteration order unspecified; the code
  sorts whatever it collects from a map before using it, or folds it with a commutative
  operation, and the one place where the order can be observed takes it as a parameter.
  The interface the clients rely on is the locale \<open>hash_map\<close>, interpreted below for the
  operations of the model.
\<close>

section \<open>Operations\<close>

type_synonym ('k, 'v) hashmap = "('k \<times> 'v) list"
type_synonym 'a hashset = "'a list"

definition hm_get :: "('k, 'v) hashmap \<Rightarrow> 'k \<Rightarrow> 'v option" where
  "hm_get m k = map_of m k"

definition hm_contains :: "('k, 'v) hashmap \<Rightarrow> 'k \<Rightarrow> bool" where
  "hm_contains m k \<longleftrightarrow> hm_get m k \<noteq> None"

definition hm_remove :: "'k \<Rightarrow> ('k, 'v) hashmap \<Rightarrow> ('k, 'v) hashmap" where
  "hm_remove k m = filter (\<lambda>(k', _). k' \<noteq> k) m"

definition hm_insert :: "'k \<Rightarrow> 'v \<Rightarrow> ('k, 'v) hashmap \<Rightarrow> ('k, 'v) hashmap" where
  "hm_insert k v m = (k, v) # hm_remove k m"

definition hm_retain :: "('k \<Rightarrow> 'v \<Rightarrow> bool) \<Rightarrow> ('k, 'v) hashmap \<Rightarrow> ('k, 'v) hashmap" where
  "hm_retain p m = filter (\<lambda>(k, v). p k v) m"

definition hm_keys :: "('k, 'v) hashmap \<Rightarrow> 'k list" where
  "hm_keys m = map fst m"

definition hm_values :: "('k, 'v) hashmap \<Rightarrow> 'v list" where
  "hm_values m = map snd m"

definition hm_len :: "('k, 'v) hashmap \<Rightarrow> nat" where
  "hm_len m = length m"

definition hm_wf :: "('k, 'v) hashmap \<Rightarrow> bool" where
  "hm_wf m \<longleftrightarrow> distinct (hm_keys m)"

definition hs_contains :: "'a hashset \<Rightarrow> 'a \<Rightarrow> bool" where
  "hs_contains s x \<longleftrightarrow> x \<in> set s"

definition hs_insert :: "'a \<Rightarrow> 'a hashset \<Rightarrow> 'a hashset" where
  "hs_insert x s = (if hs_contains s x then s else x # s)"

definition hs_len :: "'a hashset \<Rightarrow> nat" where
  "hs_len s = length s"

lemmas hm_defs = hm_get_def hm_contains_def hm_remove_def hm_insert_def hm_retain_def
  hm_keys_def hm_values_def hm_len_def hm_wf_def
lemmas hs_defs = hs_contains_def hs_insert_def hs_len_def

section \<open>The map interface\<close>

locale hash_map =
  fixes wf :: "'m \<Rightarrow> bool"
    and empty :: 'm
    and lookup :: "'m \<Rightarrow> 'k \<Rightarrow> 'v option"
    and insert :: "'k \<Rightarrow> 'v \<Rightarrow> 'm \<Rightarrow> 'm"
    and remove :: "'k \<Rightarrow> 'm \<Rightarrow> 'm"
    and retain :: "('k \<Rightarrow> 'v \<Rightarrow> bool) \<Rightarrow> 'm \<Rightarrow> 'm"
    and len :: "'m \<Rightarrow> nat"
  assumes wf_empty: "wf empty"
    and wf_insert: "wf m \<Longrightarrow> wf (insert k v m)"
    and wf_remove: "wf m \<Longrightarrow> wf (remove k m)"
    and wf_retain: "wf m \<Longrightarrow> wf (retain p m)"
    and lookup_empty: "lookup empty k = None"
    and lookup_insert: "lookup (insert k v m) k' = (if k' = k then Some v else lookup m k')"
    and lookup_remove: "lookup (remove k m) k' = (if k' = k then None else lookup m k')"
    and lookup_retain: "wf m \<Longrightarrow> lookup (retain p m) k =
          (case lookup m k of Some v \<Rightarrow> if p k v then Some v else None | None \<Rightarrow> None)"
    and len_card: "wf m \<Longrightarrow> finite {k. lookup m k \<noteq> None} \<and> len m = card {k. lookup m k \<noteq> None}"
begin

lemma lookup_insert_same [simp]: "lookup (insert k v m) k = Some v"
  by (simp add: lookup_insert)

lemma lookup_insert_other [simp]: "k' \<noteq> k \<Longrightarrow> lookup (insert k v m) k' = lookup m k'"
  by (simp add: lookup_insert)

lemma lookup_retain_Some:
  "wf m \<Longrightarrow> lookup (retain p m) k = Some v \<longleftrightarrow> lookup m k = Some v \<and> p k v"
  by (auto simp: lookup_retain split: option.splits)

lemma len_bound:
  assumes "wf m" and "finite K" and "\<And>k v. lookup m k = Some v \<Longrightarrow> k \<in> K"
  shows "len m \<le> card K"
proof -
  have "{k. lookup m k \<noteq> None} \<subseteq> K" using assms(3) by auto
  then show ?thesis using assms(1,2) len_card card_mono by metis
qed

lemma len_insert:
  assumes "wf m"
  shows "len (insert k v m) = (if lookup m k = None then Suc (len m) else len m)"
proof -
  have "{j. lookup (insert k v m) j \<noteq> None} = Set.insert k {j. lookup m j \<noteq> None}"
    by (auto simp: lookup_insert)
  with len_card [OF assms] len_card [OF wf_insert [OF assms]] show ?thesis
    by (auto simp: card_insert_if)
qed

lemma len_retain_le: "wf m \<Longrightarrow> len (retain p m) \<le> len m"
  using len_bound [OF wf_retain, of m "{k. lookup m k \<noteq> None}" p] len_card
  by (fastforce simp: lookup_retain_Some)

end

lemma hm_keys_remove: "hm_keys (hm_remove k m) = filter (\<lambda>k'. k' \<noteq> k) (hm_keys m)"
  by (induction m) (auto simp: hm_defs)

lemma hm_keys_retain_subset: "set (hm_keys (hm_retain p m)) \<subseteq> set (hm_keys m)"
  by (auto simp: hm_defs)

lemma hm_wf_retain: "hm_wf m \<Longrightarrow> hm_wf (hm_retain p m)"
  by (simp add: hm_wf_def hm_keys_def hm_retain_def distinct_map_filter)

lemma hm_get_retain:
  "hm_wf m \<Longrightarrow> hm_get (hm_retain p m) k =
     (case hm_get m k of Some v \<Rightarrow> if p k v then Some v else None | None \<Rightarrow> None)"
  by (induction m) (auto simp: hm_defs map_of_eq_None_iff split: option.splits)

lemma hm_dom: "{k. hm_get m k \<noteq> None} = set (hm_keys m)"
  by (auto simp: hm_get_def hm_keys_def map_of_eq_None_iff)

interpretation hm: hash_map hm_wf "[]" hm_get hm_insert hm_remove hm_retain hm_len
proof unfold_locales
  fix m :: "('k, 'v) hashmap" and k k' :: 'k and v :: 'v and p
  show "hm_wf ([] :: ('k, 'v) hashmap)" by (simp add: hm_defs)
  show "hm_wf m \<Longrightarrow> hm_wf (hm_remove k m)"
    by (simp add: hm_wf_def hm_keys_remove)
  then show "hm_wf m \<Longrightarrow> hm_wf (hm_insert k v m)"
    by (auto simp: hm_wf_def hm_insert_def hm_keys_def hm_remove_def)
  show "hm_wf m \<Longrightarrow> hm_wf (hm_retain p m)" by (rule hm_wf_retain)
  show "hm_get ([] :: ('k, 'v) hashmap) k = None" by (simp add: hm_get_def)
  show "hm_get (hm_remove k m) k' = (if k' = k then None else hm_get m k')" for m :: "('k, 'v) hashmap"
    by (induction m) (auto simp: hm_defs)
  then show "hm_get (hm_insert k v m) k' = (if k' = k then Some v else hm_get m k')"
    by (auto simp: hm_insert_def) (simp_all add: hm_get_def)
  show "hm_wf m \<Longrightarrow> hm_get (hm_retain p m) k =
     (case hm_get m k of Some v \<Rightarrow> if p k v then Some v else None | None \<Rightarrow> None)"
    by (rule hm_get_retain)
  show "hm_wf m \<Longrightarrow> finite {k. hm_get m k \<noteq> None} \<and> hm_len m = card {k. hm_get m k \<noteq> None}"
    using distinct_card [of "hm_keys m"]
    by (simp only: hm_dom) (simp add: hm_wf_def hm_len_def hm_keys_def)
qed

declare hm.lookup_insert [simp] hm.lookup_remove [simp] hm.lookup_empty [simp] hm.wf_empty [simp]
declare hm.wf_insert [intro, simp] hm.wf_remove [intro, simp] hm.wf_retain [intro, simp]

lemma hm_contains_simps [simp]:
  "hm_contains [] k = False"
  "hm_contains (hm_insert k v m) k' = (k' = k \<or> hm_contains m k')"
  "hm_contains (hm_remove k m) k' = (k' \<noteq> k \<and> hm_contains m k')"
  by (auto simp: hm_contains_def)

lemma hm_contains_keys: "hm_contains m k \<longleftrightarrow> k \<in> set (hm_keys m)"
  using hm_dom [of m] by (auto simp: hm_contains_def)

lemma hm_get_in: "hm_get m k = Some v \<Longrightarrow> (k, v) \<in> set m"
  by (simp add: hm_get_def map_of_SomeD)

lemma hm_in_get: "hm_wf m \<Longrightarrow> (k, v) \<in> set m \<Longrightarrow> hm_get m k = Some v"
  by (simp add: hm_get_def hm_wf_def hm_keys_def)

lemma hs_contains_insert [simp]: "hs_contains (hs_insert x s) y \<longleftrightarrow> y = x \<or> hs_contains s y"
  by (auto simp: hs_defs)

lemma distinct_hs_insert [simp]: "distinct s \<Longrightarrow> distinct (hs_insert x s)"
  by (auto simp: hs_defs)

end
