(* ===== verification/Neo_IO.thy ===== *)
theory Neo_IO
  imports Neo_Prelude
begin

text \<open>
  The wire layer of \<^verbatim>\<open>neo-io\<close>: the compact-integer codec (\<^verbatim>\<open>core/var_int.rs\<close>), the
  \<^verbatim>\<open>BinaryWriter\<close> (\<^verbatim>\<open>core/binary_writer.rs\<close>), the bounds-checked \<^verbatim>\<open>MemoryReader\<close>
  (\<^verbatim>\<open>core/memory_reader.rs\<close>) and the array helpers (\<^verbatim>\<open>serializable/helper.rs\<close>). A
  \<^verbatim>\<open>Serializable\<close> implementation is a record of its three methods; the locale
  \<open>serializable\<close> states what such an implementation promises and derives the array codec
  from it. \<^verbatim>\<open>usize\<close> is \<open>nat\<close>, with saturation at \<open>2 ^ 64 - 1\<close> written out where the code
  saturates; the invariant \<open>reader_wf\<close> records Rust's bound on the size of a slice.
\<close>

section \<open>Compact integers\<close>

definition VAR_INT_U16_MARKER :: byte where "VAR_INT_U16_MARKER = 0xFD"
definition VAR_INT_U32_MARKER :: byte where "VAR_INT_U32_MARKER = 0xFE"
definition VAR_INT_U64_MARKER :: byte where "VAR_INT_U64_MARKER = 0xFF"

lemmas marker_defs = VAR_INT_U16_MARKER_def VAR_INT_U32_MARKER_def VAR_INT_U64_MARKER_def

definition read_var_int_prefix :: "bytes \<Rightarrow> (u64 \<times> nat) option" where
  "read_var_int_prefix src =
     (case src of
        [] \<Rightarrow> None
      | prefix # _ \<Rightarrow>
          if prefix = VAR_INT_U16_MARKER then
            (if length src < 3 then None
             else Some (ucast (from_le_bytes (take 2 (drop 1 src)) :: u16), 3))
          else if prefix = VAR_INT_U32_MARKER then
            (if length src < 5 then None
             else Some (ucast (from_le_bytes (take 4 (drop 1 src)) :: u32), 5))
          else if prefix = VAR_INT_U64_MARKER then
            (if length src < 9 then None
             else Some (from_le_bytes (take 8 (drop 1 src)), 9))
          else Some (ucast prefix, 1))"

definition write_var_int :: "u64 \<Rightarrow> bytes \<Rightarrow> bytes" where
  "write_var_int value dst =
     (if value < ucast VAR_INT_U16_MARKER then dst @ [ucast value]
      else if value \<le> 0xFFFF then dst @ [VAR_INT_U16_MARKER] @ to_le_bytes (ucast value :: u16)
      else if value \<le> 0xFFFFFFFF then dst @ [VAR_INT_U32_MARKER] @ to_le_bytes (ucast value :: u32)
      else dst @ [VAR_INT_U64_MARKER] @ to_le_bytes value)"

definition encoded_len :: "u64 \<Rightarrow> nat" where
  "encoded_len value =
     (if value < ucast VAR_INT_U16_MARKER then 1
      else if value \<le> 0xFFFF then 3
      else if value \<le> 0xFFFFFFFF then 5
      else 9)"

definition write_var_bytes_to :: "bytes \<Rightarrow> bytes \<Rightarrow> bytes" where
  "write_var_bytes_to bs dst = write_var_int (of_nat (length bs)) dst @ bs"

lemma write_var_int_append: "write_var_int v dst = dst @ write_var_int v []"
  by (simp add: write_var_int_def)

lemma length_write_var_int: "length (write_var_int v []) = encoded_len v"
  by (simp add: write_var_int_def encoded_len_def)

lemma encoded_len_cases: "encoded_len v \<in> {1, 3, 5, 9}"
  by (simp add: encoded_len_def)

lemma ucast_u16_small: "v \<le> 0xFFFF \<Longrightarrow> ucast (ucast (v :: u64) :: u16) = v"
  by (simp add: word_unat_eq_iff unat_ucast_mod word_le_nat_alt)

lemma ucast_u32_small: "v \<le> 0xFFFFFFFF \<Longrightarrow> ucast (ucast (v :: u64) :: u32) = v"
  by (simp add: word_unat_eq_iff unat_ucast_mod word_le_nat_alt)

lemma ucast_u8_small: "v < 0xFD \<Longrightarrow> ucast (ucast (v :: u64) :: byte) = v"
  by (simp add: word_unat_eq_iff unat_ucast_mod word_less_nat_alt)

lemma ucast_u8_not_marker:
  assumes "(v :: u64) < 0xFD"
  shows "(ucast v :: byte) \<noteq> 0xFD" and "(ucast v :: byte) \<noteq> 0xFE" and "(ucast v :: byte) \<noteq> 0xFF"
  using assms by (auto simp: word_unat_eq_iff unat_ucast_mod word_less_nat_alt)

lemma read_write_var_int:
  "read_var_int_prefix (write_var_int v [] @ rest) = Some (v, encoded_len v)"
proof -
  have m: "(ucast VAR_INT_U16_MARKER :: u64) = 0xFD" by (simp add: marker_defs)
  consider (a) "v < 0xFD" | (b) "\<not> v < 0xFD" "v \<le> 0xFFFF"
    | (c) "\<not> v < 0xFD" "\<not> v \<le> 0xFFFF" "v \<le> 0xFFFFFFFF"
    | (d) "\<not> v < 0xFD" "\<not> v \<le> 0xFFFF" "\<not> v \<le> 0xFFFFFFFF"
    by blast
  then show ?thesis
  proof cases
    case a
    then show ?thesis
      using ucast_u8_not_marker [OF a] ucast_u8_small [OF a]
      by (simp add: read_var_int_prefix_def write_var_int_def encoded_len_def marker_defs)
  next
    case b
    then show ?thesis
      by (simp add: read_var_int_prefix_def write_var_int_def encoded_len_def marker_defs
          wire_simps ucast_u16_small)
  next
    case c
    then show ?thesis
      by (simp add: read_var_int_prefix_def write_var_int_def encoded_len_def marker_defs
          wire_simps ucast_u32_small)
  next
    case d
    then show ?thesis
      by (simp add: read_var_int_prefix_def write_var_int_def encoded_len_def marker_defs
          wire_simps)
  qed
qed

lemma read_var_int_prefix_width:
  "read_var_int_prefix src = Some (v, n) \<Longrightarrow> 0 < n \<and> n \<le> length src \<and> n \<in> {1, 3, 5, 9}"
  by (auto simp: read_var_int_prefix_def split: list.splits if_splits)

lemma read_var_int_prefix_extend:
  "read_var_int_prefix src = Some (v, n) \<Longrightarrow> read_var_int_prefix (src @ more) = Some (v, n)"
  by (auto simp: read_var_int_prefix_def split: list.splits if_splits)

text \<open>A truncated encoding is never decoded: the decoder waits for the missing bytes.\<close>

lemma read_var_int_prefix_truncated:
  assumes "n < encoded_len v"
  shows "read_var_int_prefix (take n (write_var_int v [])) = None"
proof (cases "read_var_int_prefix (take n (write_var_int v []))")
  case (Some r)
  obtain v' k where r: "r = (v', k)" by (cases r)
  have "read_var_int_prefix (take n (write_var_int v []) @ drop n (write_var_int v [])) = Some (v', k)"
    using read_var_int_prefix_extend Some r by blast
  moreover have "k \<le> n"
    using read_var_int_prefix_width [of "take n (write_var_int v [])"] Some r by auto
  ultimately show ?thesis
    using read_write_var_int [of v "[]"] assms by simp
qed simp

section \<open>Errors and the binary writer\<close>

datatype io_error = Format | InvalidUtf8 | InvalidData string string | Io

definition invalid_data :: "string \<Rightarrow> io_error" where
  "invalid_data message = InvalidData ''invalid data'' message"

record binary_writer =
  buffer :: bytes

type_synonym writer_op = "(binary_writer, io_error, unit) run"

definition binary_writer_new :: binary_writer where
  "binary_writer_new = \<lparr>buffer = []\<rparr>"

definition writer_push :: "bytes \<Rightarrow> writer_op" where
  "writer_push bs w = (Inr (), w\<lparr>buffer := buffer w @ bs\<rparr>)"

definition write_u8 :: "byte \<Rightarrow> writer_op" where
  "write_u8 value = writer_push [value]"

definition write_bool :: "bool \<Rightarrow> writer_op" where
  "write_bool value = write_u8 (if value then 1 else 0)"

definition write_u16 :: "u16 \<Rightarrow> writer_op" where
  "write_u16 value = writer_push (to_le_bytes value)"

definition write_u32 :: "u32 \<Rightarrow> writer_op" where
  "write_u32 value = writer_push (to_le_bytes value)"

definition write_u64 :: "u64 \<Rightarrow> writer_op" where
  "write_u64 value = writer_push (to_le_bytes value)"

definition write_bytes :: "bytes \<Rightarrow> writer_op" where
  "write_bytes bs = writer_push bs"

definition writer_write_var_int :: "u64 \<Rightarrow> writer_op" where
  "writer_write_var_int value w = (Inr (), w\<lparr>buffer := write_var_int value (buffer w)\<rparr>)"

definition write_var_bytes :: "bytes \<Rightarrow> writer_op" where
  "write_var_bytes bs w = (Inr (), w\<lparr>buffer := write_var_bytes_to bs (buffer w)\<rparr>)"

definition write_var_string :: "bytes \<Rightarrow> writer_op" where
  "write_var_string value = write_var_bytes value"

definition into_bytes :: "binary_writer \<Rightarrow> bytes" where
  "into_bytes w = buffer w"

lemmas writer_defs = writer_push_def write_u8_def write_bool_def write_u16_def write_u32_def
  write_u64_def write_bytes_def writer_write_var_int_def write_var_bytes_def
  write_var_string_def write_var_bytes_to_def

section \<open>The memory reader\<close>

record memory_reader =
  rbuf :: bytes
  position :: nat

type_synonym 'a reader_op = "(memory_reader, io_error, 'a) run"

definition usize_max :: nat where
  "usize_max = 2 ^ 64 - 1"

definition memory_reader_new :: "bytes \<Rightarrow> memory_reader" where
  "memory_reader_new bs = \<lparr>rbuf = bs, position = 0\<rparr>"

definition set_position :: "nat \<Rightarrow> unit reader_op" where
  "set_position p r = (if p > length (rbuf r) then (Inl Format, r) else (Inr (), r\<lparr>position := p\<rparr>))"

definition remaining :: "memory_reader \<Rightarrow> nat" where
  "remaining r = length (rbuf r) - position r"

definition ensure_available :: "nat \<Rightarrow> unit reader_op" where
  "ensure_available required r =
     (if min (position r + required) usize_max > length (rbuf r) then (Inl Format, r) else (Inr (), r))"

definition read_slice :: "nat \<Rightarrow> bytes reader_op" where
  "read_slice len = and_then (ensure_available len)
     (\<lambda>_ r. (Inr (take len (drop (position r) (rbuf r))), r\<lparr>position := position r + len\<rparr>))"

definition read_with_buf :: "nat \<Rightarrow> (bytes \<Rightarrow> 'a) \<Rightarrow> 'a reader_op" where
  "read_with_buf len read = and_then (ensure_available len)
     (\<lambda>_ r. (Inr (read (take len (drop (position r) (rbuf r)))), r\<lparr>position := position r + len\<rparr>))"

definition read_array :: "nat \<Rightarrow> bytes reader_op" where
  "read_array n = read_slice n"

definition read_bytes :: "nat \<Rightarrow> bytes reader_op" where
  "read_bytes len = read_slice len"

definition peek :: "byte reader_op" where
  "peek = and_then (ensure_available 1) (\<lambda>_ r. (Inr (rbuf r ! position r), r))"

definition read_byte :: "byte reader_op" where
  "read_byte = read_with_buf 1 from_le_bytes"

definition read_uint16 :: "u16 reader_op" where
  "read_uint16 = read_with_buf 2 from_le_bytes"

definition read_uint16_big_endian :: "u16 reader_op" where
  "read_uint16_big_endian = read_with_buf 2 (\<lambda>bs. from_le_bytes (rev bs))"

definition read_uint32 :: "u32 reader_op" where
  "read_uint32 = read_with_buf 4 from_le_bytes"

definition read_uint32_big_endian :: "u32 reader_op" where
  "read_uint32_big_endian = read_with_buf 4 (\<lambda>bs. from_le_bytes (rev bs))"

definition read_uint64 :: "u64 reader_op" where
  "read_uint64 = read_with_buf 8 from_le_bytes"

definition read_uint64_big_endian :: "u64 reader_op" where
  "read_uint64_big_endian = read_with_buf 8 (\<lambda>bs. from_le_bytes (rev bs))"

definition read_boolean :: "bool reader_op" where
  "read_boolean = and_then read_byte
     (\<lambda>b. if b = 0 then ok False else if b = 1 then ok True else err Format)"

definition read_var_int :: "u64 \<Rightarrow> u64 reader_op" where
  "read_var_int max_value r =
     (let unread = drop (position r) (rbuf r) in
      case read_var_int_prefix unread of
        None \<Rightarrow> (Inl Format, if unread \<noteq> [] then r\<lparr>position := position r + 1\<rparr> else r)
      | Some (value, width) \<Rightarrow>
          let r' = r\<lparr>position := position r + width\<rparr> in
          if value > max_value then (Inl Format, r') else (Inr value, r'))"

definition read_var_uint :: "u64 reader_op" where
  "read_var_uint = read_var_int (- 1)"

definition read_var_memory :: "nat \<Rightarrow> bytes reader_op" where
  "read_var_memory max_len = and_then (read_var_int (of_nat max_len)) (\<lambda>count. read_slice (unat count))"

definition read_var_bytes :: "nat \<Rightarrow> bytes reader_op" where
  "read_var_bytes max_len = read_var_memory max_len"

definition read_to_end :: "bytes reader_op" where
  "read_to_end r = read_slice (length (rbuf r) - position r) r"

definition reader_read :: "nat \<Rightarrow> bytes reader_op" where
  "reader_read n r =
     (let count = min (remaining r) n in
      if count = 0 then (Inr [], r)
      else (Inr (take count (drop (position r) (rbuf r))), r\<lparr>position := position r + count\<rparr>))"

subsection \<open>Strings\<close>

text \<open>\<^verbatim>\<open>str::from_utf8\<close> of the standard library: a \<open>String\<close> is its UTF-8 bytes.\<close>

definition utf8_cont :: "byte \<Rightarrow> bool" where
  "utf8_cont b \<longleftrightarrow> 0x80 \<le> b \<and> b \<le> 0xBF"

fun utf8_valid :: "bytes \<Rightarrow> bool" where
  "utf8_valid [] = True"
| "utf8_valid (a # bs) =
     (if a < 0x80 then utf8_valid bs
      else if 0xC2 \<le> a \<and> a \<le> 0xDF then
        (case bs of b # rest \<Rightarrow> utf8_cont b \<and> utf8_valid rest | _ \<Rightarrow> False)
      else if 0xE0 \<le> a \<and> a \<le> 0xEF then
        (case bs of b # c # rest \<Rightarrow>
           utf8_cont b \<and> (a = 0xE0 \<longrightarrow> 0xA0 \<le> b) \<and> (a = 0xED \<longrightarrow> b \<le> 0x9F) \<and>
           utf8_cont c \<and> utf8_valid rest
         | _ \<Rightarrow> False)
      else if 0xF0 \<le> a \<and> a \<le> 0xF4 then
        (case bs of b # c # d # rest \<Rightarrow>
           utf8_cont b \<and> (a = 0xF0 \<longrightarrow> 0x90 \<le> b) \<and> (a = 0xF4 \<longrightarrow> b \<le> 0x8F) \<and>
           utf8_cont c \<and> utf8_cont d \<and> utf8_valid rest
         | _ \<Rightarrow> False)
      else False)"

definition read_fixed_string :: "nat \<Rightarrow> bytes reader_op" where
  "read_fixed_string len = and_then (read_slice len)
     (\<lambda>slice.
        let text = takeWhile (\<lambda>b. b \<noteq> 0) slice; padding = dropWhile (\<lambda>b. b \<noteq> 0) slice in
        if \<exists>b \<in> set padding. b \<noteq> 0 then err Format
        else if utf8_valid text then ok text else err InvalidUtf8)"

definition read_var_string :: "nat \<Rightarrow> bytes reader_op" where
  "read_var_string max_len = and_then (read_var_int (of_nat max_len))
     (\<lambda>len. and_then (read_slice (unat len))
        (\<lambda>text. if utf8_valid text then ok text else err InvalidUtf8))"

section \<open>Serializable values and arrays\<close>

record 'a serializable_impl =
  deserialize_fn :: "'a reader_op"
  serialize_fn :: "'a \<Rightarrow> writer_op"
  size_fn :: "'a \<Rightarrow> nat"

definition get_var_size :: "u64 \<Rightarrow> nat" where
  "get_var_size value = encoded_len value"

definition get_var_size_usize :: "nat \<Rightarrow> nat" where
  "get_var_size_usize value = get_var_size (of_nat value)"

definition get_var_size_bytes :: "bytes \<Rightarrow> nat" where
  "get_var_size_bytes bs = get_var_size_usize (length bs) + length bs"

definition get_var_size_serializable_slice :: "'a serializable_impl \<Rightarrow> 'a list \<Rightarrow> nat" where
  "get_var_size_serializable_slice D values =
     get_var_size_usize (length values) + sum_list (map (size_fn D) values)"

fun write_items :: "('a \<Rightarrow> writer_op) \<Rightarrow> 'a list \<Rightarrow> writer_op" where
  "write_items write_item [] = ok ()"
| "write_items write_item (v # vs) = and_then (write_item v) (\<lambda>_. write_items write_item vs)"

definition serialize_array :: "'a serializable_impl \<Rightarrow> 'a list \<Rightarrow> writer_op" where
  "serialize_array D values = and_then (writer_write_var_int (of_nat (length values)))
     (\<lambda>_. write_items (serialize_fn D) values)"

fun read_items :: "'a reader_op \<Rightarrow> nat \<Rightarrow> 'a list reader_op" where
  "read_items read_item 0 = ok []"
| "read_items read_item (Suc n) =
     and_then read_item (\<lambda>v. and_then (read_items read_item n) (\<lambda>vs. ok (v # vs)))"

fun nat_display :: "nat \<Rightarrow> string" where
  "nat_display n =
     (if n < 10 then [char_of (48 + n)] else nat_display (n div 10) @ [char_of (48 + n mod 10)])"

declare nat_display.simps [simp del]

definition deserialize_array :: "'a serializable_impl \<Rightarrow> nat \<Rightarrow> 'a list reader_op" where
  "deserialize_array D max_len = and_then (read_var_int (of_nat max_len))
     (\<lambda>value. let count = unat value in
        if count > max_len then
          err (invalid_data (''array length '' @ nat_display count @ '' exceeds maximum '' @ nat_display max_len))
        else read_items (deserialize_fn D) count)"

definition deserialize_exact_array :: "'a serializable_impl \<Rightarrow> nat \<Rightarrow> string \<Rightarrow> 'a list reader_op" where
  "deserialize_exact_array D expected mismatch_message = and_then (read_var_int (of_nat expected))
     (\<lambda>value. let count = unat value in
        if count \<noteq> expected then err (invalid_data mismatch_message)
        else read_items (deserialize_fn D) count)"

definition to_array :: "'a serializable_impl \<Rightarrow> 'a \<Rightarrow> io_error + bytes" where
  "to_array D v =
     (case serialize_fn D v binary_writer_new of
        (Inl e, _) \<Rightarrow> Inl e
      | (Inr _, w) \<Rightarrow> Inr (into_bytes w))"

section \<open>Reader invariant and evaluation on concatenated input\<close>

definition reader_wf :: "memory_reader \<Rightarrow> bool" where
  "reader_wf r \<longleftrightarrow> position r \<le> length (rbuf r) \<and> length (rbuf r) < 2 ^ 63"

definition unread :: "memory_reader \<Rightarrow> bytes" where
  "unread r = drop (position r) (rbuf r)"

definition advance :: "nat \<Rightarrow> memory_reader \<Rightarrow> memory_reader" where
  "advance n r = r\<lparr>position := position r + n\<rparr>"

lemma unread_advance [wire_simps]: "unread (advance n r) = drop n (unread r)"
  by (simp add: unread_def advance_def add.commute)

lemma rbuf_advance [simp]: "rbuf (advance n r) = rbuf r"
  by (simp add: advance_def)

lemma advance_advance [wire_simps]: "advance m (advance n r) = advance (n + m) r"
  by (simp add: advance_def)

lemma advance_0 [simp]: "advance 0 r = r"
  by (simp add: advance_def)

lemma length_unread: "length (unread r) = length (rbuf r) - position r"
  by (simp add: unread_def)

lemma reader_wf_advance: "reader_wf r \<Longrightarrow> n \<le> length (unread r) \<Longrightarrow> reader_wf (advance n r)"
  by (auto simp: reader_wf_def advance_def length_unread)

lemma reader_wf_new [simp]: "reader_wf (memory_reader_new bs) \<longleftrightarrow> length bs < 2 ^ 63"
  by (simp add: reader_wf_def memory_reader_new_def)

lemma unread_new [simp]: "unread (memory_reader_new bs) = bs"
  by (simp add: unread_def memory_reader_new_def)

lemma ensure_available_wf:
  "reader_wf r \<Longrightarrow>
     ensure_available n r = (if n \<le> length (unread r) then (Inr (), r) else (Inl Format, r))"
  by (auto simp: ensure_available_def reader_wf_def length_unread usize_max_def)

lemma read_slice_wf:
  "reader_wf r \<Longrightarrow> read_slice n r =
     (if n \<le> length (unread r) then (Inr (take n (unread r)), advance n r) else (Inl Format, r))"
  by (simp add: read_slice_def and_then_def ensure_available_wf unread_def advance_def)

lemma read_with_buf_wf:
  "reader_wf r \<Longrightarrow> read_with_buf n f r =
     (if n \<le> length (unread r) then (Inr (f (take n (unread r))), advance n r) else (Inl Format, r))"
  by (simp add: read_with_buf_def and_then_def ensure_available_wf unread_def advance_def)

lemma read_var_int_wf:
  "reader_wf r \<Longrightarrow> read_var_int max_value r =
     (case read_var_int_prefix (unread r) of
        None \<Rightarrow> (Inl Format, if unread r \<noteq> [] then advance 1 r else r)
      | Some (value, width) \<Rightarrow>
          (if value > max_value then Inl Format else Inr value, advance width r))"
  by (auto simp: read_var_int_def Let_def unread_def advance_def split: option.splits prod.splits)

text \<open>On input that starts with an encoding, a read returns the value and leaves the rest.\<close>

lemma read_slice_append [wire_simps]:
  "reader_wf r \<Longrightarrow> unread r = bs @ rest \<Longrightarrow> length bs = n \<Longrightarrow>
     read_slice n r = (Inr bs, advance n r)"
  by (simp add: read_slice_wf)

lemma read_bytes_append [wire_simps]:
  "reader_wf r \<Longrightarrow> unread r = bs @ rest \<Longrightarrow> length bs = n \<Longrightarrow>
     read_bytes n r = (Inr bs, advance n r)"
  by (simp add: read_bytes_def read_slice_append)

lemma le_byte [simp]: "from_le_bytes [b] = (b :: byte)"
  by (simp add: from_le_bytes_def)

lemma to_le_byte [simp]: "to_le_bytes (b :: byte) = [b]"
  by (simp add: to_le_bytes_def)

lemma read_byte_cons [wire_simps]:
  "reader_wf r \<Longrightarrow> unread r = b # rest \<Longrightarrow> read_byte r = (Inr b, advance 1 r)"
  by (simp add: read_byte_def read_with_buf_wf)

lemma read_boolean_cons [wire_simps]:
  "reader_wf r \<Longrightarrow> unread r = (if b then 1 else 0) # rest \<Longrightarrow> read_boolean r = (Inr b, advance 1 r)"
  by (cases b) (simp_all add: read_boolean_def and_then_def read_byte_cons ok_def)

lemma read_uint32_append [wire_simps]:
  "reader_wf r \<Longrightarrow> unread r = to_le_bytes v @ rest \<Longrightarrow> read_uint32 r = (Inr v, advance 4 r)"
  by (simp add: read_uint32_def read_with_buf_wf wire_simps)

lemma read_uint64_append [wire_simps]:
  "reader_wf r \<Longrightarrow> unread r = to_le_bytes v @ rest \<Longrightarrow> read_uint64 r = (Inr v, advance 8 r)"
  by (simp add: read_uint64_def read_with_buf_wf wire_simps)

lemma read_var_int_append [wire_simps]:
  "reader_wf r \<Longrightarrow> unread r = write_var_int v [] @ rest \<Longrightarrow> v \<le> max_value \<Longrightarrow>
     read_var_int max_value r = (Inr v, advance (encoded_len v) r)"
  by (simp add: read_var_int_wf read_write_var_int)

lemma read_var_bytes_append [wire_simps]:
  assumes wf: "reader_wf r" and inp: "unread r = write_var_bytes_to bs [] @ rest"
    and len: "length bs \<le> max_len" and max: "max_len < 2 ^ 64"
  shows "read_var_bytes max_len r = (Inr bs, advance (get_var_size_bytes bs) r)"
proof -
  let ?v = "of_nat (length bs) :: u64"
  have v: "unat ?v = length bs" "?v \<le> of_nat max_len"
    using len max by (simp_all add: unat_of_nat word_le_nat_alt)
  have inp': "unread r = write_var_int ?v [] @ bs @ rest"
    using inp by (simp add: write_var_bytes_to_def)
  let ?r = "advance (encoded_len ?v) r"
  have wf': "reader_wf ?r"
    using wf inp' by (intro reader_wf_advance) (simp_all add: length_write_var_int)
  have "unread ?r = bs @ rest"
    by (simp add: unread_advance inp' length_write_var_int)
  with wf' have "read_slice (length bs) ?r = (Inr bs, advance (length bs) ?r)"
    by (rule read_slice_append) simp
  then show ?thesis
    using read_var_int_append [OF wf inp' v(2)] v(1)
    by (simp add: read_var_bytes_def read_var_memory_def and_then_def get_var_size_bytes_def
        get_var_size_usize_def get_var_size_def advance_advance)
qed

section \<open>What a serializable implementation promises\<close>

definition array_enc :: "('a \<Rightarrow> bytes) \<Rightarrow> 'a list \<Rightarrow> bytes" where
  "array_enc enc vs = write_var_int (of_nat (length vs)) [] @ concat (map enc vs)"

locale serializable =
  fixes D :: "'a serializable_impl"
    and valid :: "'a \<Rightarrow> bool"
    and enc :: "'a \<Rightarrow> bytes"
  assumes serialize_enc: "valid v \<Longrightarrow> serialize_fn D v w = (Inr (), w\<lparr>buffer := buffer w @ enc v\<rparr>)"
    and size_enc: "valid v \<Longrightarrow> size_fn D v = length (enc v)"
    and deserialize_enc: "valid v \<Longrightarrow> reader_wf r \<Longrightarrow> unread r = enc v @ rest \<Longrightarrow>
          deserialize_fn D r = (Inr v, advance (length (enc v)) r)"
begin

lemma write_items_enc:
  "\<forall>v \<in> set vs. valid v \<Longrightarrow>
     write_items (serialize_fn D) vs w = (Inr (), w\<lparr>buffer := buffer w @ concat (map enc vs)\<rparr>)"
  by (induction vs arbitrary: w) (simp_all add: run_simps and_then_def serialize_enc)

lemma serialize_array_enc:
  "\<forall>v \<in> set vs. valid v \<Longrightarrow>
     serialize_array D vs w = (Inr (), w\<lparr>buffer := buffer w @ array_enc enc vs\<rparr>)"
  by (simp add: serialize_array_def and_then_def writer_write_var_int_def write_items_enc
      array_enc_def write_var_int_append [of _ "buffer w"])

lemma read_items_enc:
  "\<forall>v \<in> set vs. valid v \<Longrightarrow> reader_wf r \<Longrightarrow> unread r = concat (map enc vs) @ rest \<Longrightarrow>
     read_items (deserialize_fn D) (length vs) r
       = (Inr vs, advance (length (concat (map enc vs))) r)"
proof (induction vs arbitrary: r)
  case Nil
  then show ?case by (simp add: ok_def)
next
  case (Cons v vs)
  let ?r = "advance (length (enc v)) r"
  have first: "deserialize_fn D r = (Inr v, ?r)"
    using Cons.prems by (intro deserialize_enc [where rest = "concat (map enc vs) @ rest"]) auto
  have "reader_wf ?r" using Cons.prems by (intro reader_wf_advance) auto
  moreover have "unread ?r = concat (map enc vs) @ rest"
    using Cons.prems by (simp add: unread_advance)
  ultimately have "read_items (deserialize_fn D) (length vs) ?r
      = (Inr vs, advance (length (concat (map enc vs))) ?r)"
    using Cons.prems by (intro Cons.IH) auto
  with first show ?case
    by (simp add: and_then_def ok_def advance_advance)
qed

lemma deserialize_array_enc:
  assumes valid: "\<forall>v \<in> set vs. valid v" and wf: "reader_wf r"
    and inp: "unread r = array_enc enc vs @ rest"
    and len: "length vs \<le> max_len" and max: "max_len < 2 ^ 64"
  shows "deserialize_array D max_len r = (Inr vs, advance (length (array_enc enc vs)) r)"
proof -
  let ?v = "of_nat (length vs) :: u64"
  have v: "unat ?v = length vs" "?v \<le> of_nat max_len"
    using len max by (simp_all add: unat_of_nat word_le_nat_alt)
  have inp': "unread r = write_var_int ?v [] @ concat (map enc vs) @ rest"
    using inp by (simp add: array_enc_def)
  let ?r = "advance (encoded_len ?v) r"
  have "reader_wf ?r"
    using wf inp' by (intro reader_wf_advance) (simp_all add: length_write_var_int)
  moreover have "unread ?r = concat (map enc vs) @ rest"
    by (simp add: unread_advance inp' length_write_var_int)
  ultimately have "read_items (deserialize_fn D) (length vs) ?r
      = (Inr vs, advance (length (concat (map enc vs))) ?r)"
    using valid by (intro read_items_enc)
  then show ?thesis
    using read_var_int_append [OF wf inp' v(2)] v(1) len
    by (simp add: deserialize_array_def and_then_def Let_def array_enc_def length_write_var_int
        advance_advance)
qed

lemma array_size_enc:
  assumes "\<forall>v \<in> set vs. valid v"
  shows "get_var_size_serializable_slice D vs = length (array_enc enc vs)"
proof -
  have "sum_list (map (size_fn D) vs) = length (concat (map enc vs))"
    using assms by (induction vs) (auto simp: size_enc)
  then show ?thesis
    by (simp add: get_var_size_serializable_slice_def get_var_size_usize_def get_var_size_def
        array_enc_def length_write_var_int)
qed

end

section \<open>Parsers as inverses of encodings\<close>

text \<open>
  \<open>parses m v bs\<close>: on any well-formed reader whose unread bytes start with \<open>bs\<close>, the operation
  \<open>m\<close> returns \<open>v\<close> and consumes exactly \<open>bs\<close>. Sequencing concatenates the encodings.
\<close>

definition parses :: "(memory_reader, 'e, 'a) run \<Rightarrow> 'a \<Rightarrow> bytes \<Rightarrow> bool" where
  "parses m v bs \<longleftrightarrow>
     (\<forall>r rest. reader_wf r \<longrightarrow> unread r = bs @ rest \<longrightarrow> m r = (Inr v, advance (length bs) r))"

lemma parses_ok: "parses (ok v) v []"
  by (simp add: parses_def ok_def)

lemma parses_and_then:
  assumes "parses m v bs" and "parses (k v) w cs"
  shows "parses (and_then m k) w (bs @ cs)"
  unfolding parses_def
proof (intro allI impI)
  fix r rest
  assume r: "reader_wf r" and u: "unread r = (bs @ cs) @ rest"
  let ?r = "advance (length bs) r"
  have "m r = (Inr v, ?r)" using assms(1) r u by (simp add: parses_def)
  moreover have "reader_wf ?r" using r u by (intro reader_wf_advance) auto
  then have "k v ?r = (Inr w, advance (length cs) ?r)"
    using assms(2) u by (simp add: parses_def unread_advance)
  ultimately show "and_then m k r = (Inr w, advance (length (bs @ cs)) r)"
    by (simp add: and_then_def advance_advance)
qed

lemma parses_map_err: "parses m v bs \<Longrightarrow> parses (map_err f m) v bs"
  by (simp add: parses_def map_err_def)

lemma parses_last: "parses m v bs \<Longrightarrow> parses (k v) w [] \<Longrightarrow> parses (and_then m k) w bs"
  using parses_and_then [of m v bs k w "[]"] by simp

lemma parses_byte: "parses read_byte b [b]"
  by (simp add: parses_def read_byte_cons)

lemma parses_boolean: "parses read_boolean b [if b then 1 else 0]"
  by (auto simp: parses_def read_boolean_cons)

lemma parses_u32: "parses read_uint32 v (to_le_bytes v)"
  by (simp add: parses_def read_uint32_append)

lemma parses_u64: "parses read_uint64 v (to_le_bytes v)"
  by (simp add: parses_def read_uint64_append)

lemma parses_bytes: "length bs = n \<Longrightarrow> parses (read_bytes n) bs bs"
  by (auto simp: parses_def read_bytes_append)

lemma parses_var_int: "v \<le> m \<Longrightarrow> parses (read_var_int m) v (write_var_int v [])"
  by (simp add: parses_def read_var_int_append length_write_var_int)

lemma parses_new:
  assumes "parses m v bs" and "length bs < 2 ^ 63"
  shows "fst (m (memory_reader_new bs)) = Inr v"
proof -
  have "reader_wf (memory_reader_new bs)" "unread (memory_reader_new bs) = bs @ []"
    using assms(2) by simp_all
  then have "m (memory_reader_new bs) = (Inr v, advance (length bs) (memory_reader_new bs))"
    using assms(1) unfolding parses_def by blast
  then show ?thesis by simp
qed

section \<open>Reads stay inside the buffer\<close>

definition reader_step :: "memory_reader \<Rightarrow> memory_reader \<Rightarrow> bool" where
  "reader_step r r' \<longleftrightarrow>
     rbuf r' = rbuf r \<and> position r \<le> position r' \<and> (reader_wf r \<longrightarrow> reader_wf r')"

interpretation rd: step_contract reader_step
  by unfold_locales (auto simp: reader_step_def)

lemma reader_step_advance:
  "n \<le> length (unread r) \<Longrightarrow> reader_step r (advance n r)"
  using reader_wf_advance by (auto simp: reader_step_def advance_def)

lemma reader_step_ensure: "reader_step r (snd (ensure_available n r))"
  by (simp add: ensure_available_def rd.contract_refl)

lemma reader_step_slice: "reader_wf r \<Longrightarrow> reader_step r (snd (read_slice n r))"
  by (simp add: read_slice_wf reader_step_advance rd.contract_refl)

lemma reader_step_with_buf: "reader_wf r \<Longrightarrow> reader_step r (snd (read_with_buf n f r))"
  by (simp add: read_with_buf_wf reader_step_advance rd.contract_refl)

lemma reader_step_var_int:
  assumes "reader_wf r"
  shows "reader_step r (snd (read_var_int m r))"
proof (cases "read_var_int_prefix (unread r)")
  case None
  then show ?thesis
    using assms
    by (cases "unread r") (auto simp: read_var_int_wf rd.contract_refl intro!: reader_step_advance)
next
  case (Some p)
  then obtain v n where p: "p = (v, n)" by (cases p)
  then have "n \<le> length (unread r)"
    using read_var_int_prefix_width Some by blast
  with assms Some p show ?thesis by (simp add: read_var_int_wf reader_step_advance)
qed

lemma reader_step_wf: "reader_step r r' \<Longrightarrow> reader_wf r \<Longrightarrow> reader_wf r'"
  by (simp add: reader_step_def)

lemma reader_step_and_then:
  assumes "reader_wf r" and "reader_step r (snd (m r))"
    and "\<And>x r'. reader_wf r' \<Longrightarrow> reader_step r' (snd (k x r'))"
  shows "reader_step r (snd (and_then m k r))"
proof (rule rd.and_then_contract)
  show "reader_step r (snd (m r))" by (rule assms(2))
  fix x r' assume "m r = (Inr x, r')"
  then have "reader_wf r'" using assms(1,2) reader_step_wf by fastforce
  then show "reader_step r' (snd (k x r'))" by (rule assms(3))
qed

lemma reader_step_items:
  assumes "\<And>r. reader_wf r \<Longrightarrow> reader_step r (snd (f r))"
  shows "reader_wf r \<Longrightarrow> reader_step r (snd (read_items f n r))"
proof (induction n arbitrary: r)
  case 0
  then show ?case by (simp add: ok_def rd.contract_refl)
next
  case (Suc n)
  then show ?case
    by (auto intro!: reader_step_and_then assms rd.ok_contract)
qed

lemma reader_step_array:
  assumes "\<And>r. reader_wf r \<Longrightarrow> reader_step r (snd (deserialize_fn D r))" and "reader_wf r"
  shows "reader_step r (snd (deserialize_array D n r))"
  unfolding deserialize_array_def
  by (auto intro!: reader_step_and_then reader_step_var_int reader_step_items assms
      rd.err_contract simp: Let_def)

lemma reader_step_checks:
  "reader_step r (snd ((if a then err x else if b then ok y else err z) r))"
  by (simp add: ok_def err_def rd.contract_refl)

lemma reader_step_fixed_string:
  assumes "reader_wf r"
  shows "reader_step r (snd (read_fixed_string n r))"
  unfolding read_fixed_string_def Let_def
  by (rule reader_step_and_then; rule assms reader_step_slice reader_step_checks; rule assms)

lemmas reader_steps = reader_step_slice reader_step_with_buf reader_step_var_int

section \<open>Properties of the wire layer\<close>

text \<open>
  C21: the compact-integer codec is a prefix code. Decoding the encoding of any value,
  followed by any bytes, gives back the value and the exact number of bytes written, which is
  what \<^verbatim>\<open>encoded_len\<close> announces; and no strict prefix of an encoding is ever decoded, so the
  streaming decoder waits for the missing bytes instead of returning a wrong value.
\<close>

theorem var_int_prefix_code:
  "read_var_int_prefix (write_var_int v [] @ rest) = Some (v, length (write_var_int v []))
   \<and> length (write_var_int v []) = encoded_len v
   \<and> (n < encoded_len v \<longrightarrow> read_var_int_prefix (take n (write_var_int v [])) = None)"
  by (simp add: read_write_var_int length_write_var_int read_var_int_prefix_truncated)

theorem var_int_prefix_code_witness:
  "read_var_int_prefix (take 2 (write_var_int 0x1234 [])) = None \<and> 2 < encoded_len 0x1234"
proof -
  have "2 < encoded_len 0x1234" by (simp add: encoded_len_def marker_defs)
  with var_int_prefix_code [of "0x1234" "[]" 2] show ?thesis by simp
qed

lemma reader_step_boolean: "reader_wf r \<Longrightarrow> reader_step r (snd (read_boolean r))"
  unfolding read_boolean_def read_byte_def
  by (auto intro!: reader_step_and_then reader_steps rd.ok_contract rd.err_contract)

lemma reader_step_var:
  assumes "reader_wf r"
  shows "reader_step r (snd (read_var_memory n r))" "reader_step r (snd (read_var_string n r))"
  unfolding read_var_memory_def read_var_string_def
  by (auto intro!: reader_step_and_then reader_steps assms rd.ok_contract rd.err_contract)

lemma reader_step_read: "reader_wf r \<Longrightarrow> reader_step r (snd (reader_read n r))"
  using reader_step_advance [of "min (remaining r) n" r]
  by (auto simp: reader_read_def Let_def rd.contract_refl remaining_def length_unread advance_def)

lemma reader_step_peek: "reader_step r (snd (peek r))"
  by (simp add: peek_def and_then_def ensure_available_def rd.contract_refl)

text \<open>
  C22: no read leaves the buffer. From a well-formed reader every read operation, whether it
  succeeds or fails, leaves the buffer unchanged, never moves backwards and ends in a
  well-formed reader; \<open>read_with_buf\<close> stands for all reads of fixed-width numbers, whatever the
  conversion. Setting the position keeps the buffer and the bound. A read of a given length
  returns exactly the next bytes and moves behind them, or fails and does not move; \<open>peek\<close> returns
  the next byte if there is one and does not move.
\<close>

theorem reader_ops_in_bounds:
  assumes "reader_wf r"
  shows "(\<forall>r' \<in> {snd (read_with_buf k convert r), snd (read_byte r), snd (read_uint16 r), snd (read_uint16_big_endian r),
      snd (read_uint32 r), snd (read_uint32_big_endian r), snd (read_uint64 r), snd (read_uint64_big_endian r),
      snd (read_boolean r), snd (read_array n r), snd (read_bytes n r), snd (peek r), snd (read_var_int m r),
      snd (read_var_uint r), snd (read_var_memory n r), snd (read_var_bytes n r), snd (read_var_string n r),
      snd (read_fixed_string n r), snd (read_to_end r), snd (reader_read n r)}. reader_step r r')
    \<and> rbuf (snd (set_position p r)) = rbuf r \<and> reader_wf (snd (set_position p r))
    \<and> read_bytes n r = (if n \<le> remaining r
        then (Inr (take n (drop (position r) (rbuf r))), r \<lparr> position := position r + n \<rparr>) else (Inl Format, r))
    \<and> peek r = (if position r < length (rbuf r) then Inr (rbuf r ! position r) else Inl Format, r)"
proof (intro conjI)
  show "reader_wf (snd (set_position p r))" "rbuf (snd (set_position p r)) = rbuf r"
    using assms by (simp_all add: set_position_def reader_wf_def)
  show "read_bytes n r = (if n \<le> remaining r
        then (Inr (take n (drop (position r) (rbuf r))), r \<lparr> position := position r + n \<rparr>) else (Inl Format, r))"
    using assms by (simp add: read_bytes_def read_slice_wf unread_def advance_def remaining_def)
  show "peek r = (if position r < length (rbuf r) then Inr (rbuf r ! position r) else Inl Format, r)"
    using assms by (auto simp: peek_def and_then_def ensure_available_def usize_max_def reader_wf_def)
qed (use assms in \<open>auto simp: read_byte_def read_uint16_def read_uint16_big_endian_def read_uint32_def
      read_uint32_big_endian_def read_uint64_def read_uint64_big_endian_def read_array_def read_bytes_def
      read_var_uint_def read_var_bytes_def read_to_end_def
      intro: reader_steps reader_step_fixed_string reader_step_boolean reader_step_var reader_step_read reader_step_peek\<close>)

theorem reader_ops_in_bounds_witness:
  "reader_wf (memory_reader_new [1, 2, 3]) \<and>
   reader_step (memory_reader_new [1, 2, 3]) (snd (read_var_bytes 5 (memory_reader_new [1, 2, 3])))
   \<and> read_bytes 4 (memory_reader_new [1, 2, 3]) = (Inl Format, memory_reader_new [1, 2, 3])"
proof -
  have wf: "reader_wf (memory_reader_new [1, 2, 3])" by simp
  note in_bounds = reader_ops_in_bounds [OF wf, of 0 "\<lambda>_. ()" _ 0 0]
  have "reader_step (memory_reader_new [1, 2, 3]) (snd (read_var_bytes 5 (memory_reader_new [1, 2, 3])))"
    using in_bounds [of 5] by blast
  moreover have "read_bytes 4 (memory_reader_new [1, 2, 3]) = (Inl Format, memory_reader_new [1, 2, 3])"
    using in_bounds [of 4] by (simp add: remaining_def memory_reader_new_def)
  ultimately show ?thesis using wf by blast
qed

end
