(* ===== verification/Neo_UInt.thy ===== *)
theory Neo_UInt
  imports Neo_IO
begin

text \<open>
  The fixed-width integers \<^verbatim>\<open>UInt160\<close> and \<^verbatim>\<open>UInt256\<close> of \<^verbatim>\<open>neo-primitives\<close>, generated there by
  the macro \<^verbatim>\<open>uint_type!\<close> (\<^verbatim>\<open>macros/uint.rs\<close>): little-endian bytes, field-wise equality and
  an order that compares the most significant field first. Both are interpreted as
  serializable values (\<^verbatim>\<open>serializable/primitives.rs\<close>).
\<close>

section \<open>UInt256\<close>

datatype uint256 = UInt256 (value1: u64) (value2: u64) (value3: u64) (value4: u64)

definition uint256_zero :: uint256 where
  "uint256_zero = UInt256 0 0 0 0"

definition uint256_is_zero :: "uint256 \<Rightarrow> bool" where
  "uint256_is_zero u \<longleftrightarrow> value1 u = 0 \<and> value2 u = 0 \<and> value3 u = 0 \<and> value4 u = 0"

definition uint256_to_bytes :: "uint256 \<Rightarrow> bytes" where
  "uint256_to_bytes u =
     to_le_bytes (value1 u) @ to_le_bytes (value2 u) @ to_le_bytes (value3 u) @ to_le_bytes (value4 u)"

definition uint256_from_array :: "bytes \<Rightarrow> uint256" where
  "uint256_from_array d =
     UInt256 (from_le_bytes (take 8 d)) (from_le_bytes (take 8 (drop 8 d)))
       (from_le_bytes (take 8 (drop 16 d))) (from_le_bytes (take 8 (drop 24 d)))"

definition uint256_from_bytes :: "bytes \<Rightarrow> uint256 option" where
  "uint256_from_bytes v = (if length v \<noteq> 32 then None else Some (uint256_from_array v))"

lemma length_uint256_to_bytes [simp]: "length (uint256_to_bytes u) = 32"
  by (simp add: uint256_to_bytes_def)

lemma uint256_from_to [wire_simps, simp]: "uint256_from_array (uint256_to_bytes u) = u"
  by (cases u) (simp add: uint256_from_array_def uint256_to_bytes_def from_to_le_bytes)

lemma uint256_to_from:
  assumes "length d = 32"
  shows "uint256_to_bytes (uint256_from_array d) = d"
proof -
  have "take 8 d @ take 8 (drop 8 d) @ take 8 (drop 16 d) @ take 8 (drop 24 d) = d"
    using assms by (simp flip: take_add add: append_assoc [symmetric] del: append_assoc)
  then show ?thesis
    using assms
    by (simp add: uint256_from_array_def uint256_to_bytes_def to_from_le_bytes)
qed

lemma uint256_from_bytes_to_bytes [wire_simps, simp]: "uint256_from_bytes (uint256_to_bytes u) = Some u"
  by (simp add: uint256_from_bytes_def)

lemma uint256_to_bytes_inject [simp]: "uint256_to_bytes u = uint256_to_bytes v \<longleftrightarrow> u = v"
  by (metis uint256_from_to)

text \<open>\<^verbatim>\<open>Ord::cmp\<close> of the macro: the last field is the most significant one.\<close>

definition uint256_le :: "uint256 \<Rightarrow> uint256 \<Rightarrow> bool" where
  "uint256_le a b \<longleftrightarrow>
     value4 a < value4 b \<or> value4 a = value4 b \<and>
       (value3 a < value3 b \<or> value3 a = value3 b \<and>
          (value2 a < value2 b \<or> value2 a = value2 b \<and> value1 a \<le> value1 b))"

instantiation uint256 :: linorder
begin

definition less_eq_uint256 :: "uint256 \<Rightarrow> uint256 \<Rightarrow> bool" where
  "less_eq_uint256 = uint256_le"

definition less_uint256 :: "uint256 \<Rightarrow> uint256 \<Rightarrow> bool" where
  "less_uint256 a b \<longleftrightarrow> a \<le> b \<and> \<not> b \<le> a"

instance
  by intro_classes
    (auto simp: less_eq_uint256_def uint256_le_def less_uint256_def intro: uint256.expand)

end

section \<open>UInt160\<close>

datatype uint160 = UInt160 (part1: u64) (part2: u64) (part3: u32)

definition uint160_zero :: uint160 where
  "uint160_zero = UInt160 0 0 0"

definition uint160_to_bytes :: "uint160 \<Rightarrow> bytes" where
  "uint160_to_bytes u = to_le_bytes (part1 u) @ to_le_bytes (part2 u) @ to_le_bytes (part3 u)"

definition uint160_from_array :: "bytes \<Rightarrow> uint160" where
  "uint160_from_array d =
     UInt160 (from_le_bytes (take 8 d)) (from_le_bytes (take 8 (drop 8 d)))
       (from_le_bytes (take 4 (drop 16 d)))"

definition uint160_from_bytes :: "bytes \<Rightarrow> uint160 option" where
  "uint160_from_bytes v = (if length v \<noteq> 20 then None else Some (uint160_from_array v))"

lemma length_uint160_to_bytes [simp]: "length (uint160_to_bytes u) = 20"
  by (simp add: uint160_to_bytes_def)

lemma uint160_from_to [wire_simps, simp]: "uint160_from_array (uint160_to_bytes u) = u"
  by (cases u) (simp add: uint160_from_array_def uint160_to_bytes_def from_to_le_bytes)

section \<open>Serialization\<close>

text \<open>
  The length check of \<^verbatim>\<open>from_bytes\<close> cannot fail after \<^verbatim>\<open>read_bytes\<close> has returned exactly the
  width of the type; its formatted detail is left out of the message.
\<close>

definition uint_deserialize :: "nat \<Rightarrow> (bytes \<Rightarrow> 'a option) \<Rightarrow> string \<Rightarrow> 'a reader_op" where
  "uint_deserialize len from_bytes message = and_then (read_bytes len)
     (\<lambda>bs. case from_bytes bs of Some u \<Rightarrow> ok u | None \<Rightarrow> err (invalid_data message))"

definition uint256_impl :: "uint256 serializable_impl" where
  "uint256_impl =
     \<lparr>deserialize_fn = uint_deserialize 32 uint256_from_bytes ''Invalid UInt256'',
      serialize_fn = (\<lambda>u. write_bytes (uint256_to_bytes u)),
      size_fn = (\<lambda>_. 32)\<rparr>"

definition uint160_impl :: "uint160 serializable_impl" where
  "uint160_impl =
     \<lparr>deserialize_fn = uint_deserialize 20 uint160_from_bytes ''Invalid UInt160'',
      serialize_fn = (\<lambda>u. write_bytes (uint160_to_bytes u)),
      size_fn = (\<lambda>_. 20)\<rparr>"

interpretation u256: serializable uint256_impl "\<lambda>_. True" uint256_to_bytes
  by unfold_locales
    (simp_all add: uint256_impl_def uint_deserialize_def write_bytes_def writer_push_def
      and_then_def read_bytes_append ok_def)

interpretation u160: serializable uint160_impl "\<lambda>_. True" uint160_to_bytes
  by unfold_locales
    (simp_all add: uint160_impl_def uint_deserialize_def write_bytes_def writer_push_def
      and_then_def read_bytes_append ok_def uint160_from_bytes_def)

lemma reader_step_uint256: "reader_wf r \<Longrightarrow> reader_step r (snd (deserialize_fn uint256_impl r))"
  by (auto simp: uint256_impl_def uint_deserialize_def read_bytes_def
      intro!: reader_step_and_then reader_steps rd.ok_contract rd.err_contract split: option.splits)

lemma uint256_deserialize_append [wire_simps]:
  "reader_wf r \<Longrightarrow> unread r = uint256_to_bytes u @ rest \<Longrightarrow>
     deserialize_fn uint256_impl r = (Inr u, advance 32 r)"
  using u256.deserialize_enc [where v = u and r = r and rest = rest] by simp

end
