(* ===== verification/Neo_Script.thy ===== *)
theory Neo_Script
  imports Neo_UInt
begin

text \<open>
  The part of \<^verbatim>\<open>neo-vm/src/script_builder\<close> that consensus and witnesses use: push
  instructions, single-signature invocation scripts, and signature / multi-signature
  verification scripts with their parsers (\<^verbatim>\<open>redeem_script.rs\<close>), together with the public-key
  type of \<^verbatim>\<open>neo-crypto/src/curves/ecc.rs\<close>. Hash functions and curve arithmetic come from
  crates outside the repository: they are the fields of the record \<open>crypto\<close>, an argument of
  every definition that needs them.
\<close>

unbundle bit_operations_syntax

section \<open>Cryptographic parameters and public keys\<close>

record crypto =
  sha256_fn :: "bytes \<Rightarrow> bytes"
  ripemd160_fn :: "bytes \<Rightarrow> bytes"
  p256_coords :: "bytes \<Rightarrow> (bytes \<times> bytes) option"
  k256_coords :: "bytes \<Rightarrow> (bytes \<times> bytes) option"
  ed25519_key :: "bytes \<Rightarrow> bool"
  p256_verify :: "bytes \<Rightarrow> bytes \<Rightarrow> bytes \<Rightarrow> bool"

definition hash256 :: "crypto \<Rightarrow> bytes \<Rightarrow> bytes" where
  "hash256 C d = sha256_fn C (sha256_fn C d)"

definition from_script :: "crypto \<Rightarrow> bytes \<Rightarrow> uint160" where
  "from_script C s = uint160_from_array (ripemd160_fn C (sha256_fn C s))"

datatype ec_curve = Secp256r1 | Secp256k1 | Ed25519

fun curve_code :: "ec_curve \<Rightarrow> nat" where
  "curve_code Secp256r1 = 0"
| "curve_code Secp256k1 = 1"
| "curve_code Ed25519 = 2"

datatype ec_point = ECPoint (point_curve: ec_curve) (point_data: bytes)

definition is_infinity :: "ec_point \<Rightarrow> bool" where
  "is_infinity p \<longleftrightarrow>
     (case point_curve p of
        Ed25519 \<Rightarrow> \<forall>b \<in> set (point_data p). b = 0
      | _ \<Rightarrow> point_data p = [0] \<or> (\<forall>b \<in> set (point_data p). b = 0))"

text \<open>
  \<open>p256_coords\<close> and \<open>k256_coords\<close> are the crates' decoding of an encoded point into its
  affine coordinates, \<open>None\<close> for the identity and for bytes that are not a curve point.
\<close>

definition parse_p256_point :: "crypto \<Rightarrow> bytes \<Rightarrow> (bytes \<times> bytes) option" where
  "parse_p256_point C d = (if length d \<noteq> 33 \<and> length d \<noteq> 65 then None else p256_coords C d)"

definition parse_k256_point :: "crypto \<Rightarrow> bytes \<Rightarrow> (bytes \<times> bytes) option" where
  "parse_k256_point C d = (if length d \<noteq> 33 \<and> length d \<noteq> 65 then None else k256_coords C d)"

definition point_from_bytes_ok :: "crypto \<Rightarrow> bytes \<Rightarrow> bool" where
  "point_from_bytes_ok C d =
     (if length d = 32 then ed25519_key C d
      else if length d = 33 \<or> length d = 65
      then parse_p256_point C d \<noteq> None \<or> parse_k256_point C d \<noteq> None
      else False)"

fun bytes_le :: "bytes \<Rightarrow> bytes \<Rightarrow> bool" where
  "bytes_le [] ys = True"
| "bytes_le (x # xs) [] = False"
| "bytes_le (x # xs) (y # ys) = (x < y \<or> x = y \<and> bytes_le xs ys)"

definition coords_le :: "bytes \<Rightarrow> bytes \<Rightarrow> (bytes \<times> bytes) option \<Rightarrow> (bytes \<times> bytes) option \<Rightarrow> bool" where
  "coords_le da db ca cb =
     (case (ca, cb) of
        (Some (xa, ya), Some (xb, yb)) \<Rightarrow> if xa = xb then bytes_le ya yb else bytes_le xa xb
      | _ \<Rightarrow> bytes_le da db)"

text \<open>\<^verbatim>\<open>Ord for ECPoint\<close>, as the test \<open>a \<le> b\<close>.\<close>

definition ec_le :: "crypto \<Rightarrow> ec_point \<Rightarrow> ec_point \<Rightarrow> bool" where
  "ec_le C a b =
     (if point_curve a \<noteq> point_curve b then curve_code (point_curve a) < curve_code (point_curve b)
      else if is_infinity a then True
      else if is_infinity b then False
      else (case point_curve a of
          Secp256r1 \<Rightarrow> coords_le (point_data a) (point_data b)
                         (parse_p256_point C (point_data a)) (parse_p256_point C (point_data b))
        | Secp256k1 \<Rightarrow> coords_le (point_data a) (point_data b)
                         (parse_k256_point C (point_data a)) (parse_k256_point C (point_data b))
        | Ed25519 \<Rightarrow> bytes_le (point_data a) (point_data b)))"

text \<open>The standard library's stable sort with a comparison function.\<close>

fun insort_by :: "('a \<Rightarrow> 'a \<Rightarrow> bool) \<Rightarrow> 'a \<Rightarrow> 'a list \<Rightarrow> 'a list" where
  "insort_by le x [] = [x]"
| "insort_by le x (y # ys) = (if le x y then x # y # ys else y # insort_by le x ys)"

definition sort_by :: "('a \<Rightarrow> 'a \<Rightarrow> bool) \<Rightarrow> 'a list \<Rightarrow> 'a list" where
  "sort_by le xs = foldr (insort_by le) xs []"

lemma mset_insort_by [simp]: "mset (insort_by le x xs) = add_mset x (mset xs)"
  by (induction xs) auto

lemma mset_sort_by [simp]: "mset (sort_by le xs) = mset xs"
proof -
  have "mset (foldr (insort_by le) xs ys) = mset xs + mset ys" for ys
    by (induction xs) auto
  then show ?thesis by (simp add: sort_by_def)
qed

lemma length_sort_by [simp]: "length (sort_by le xs) = length xs"
  by (metis mset_sort_by size_mset)

lemma set_sort_by [simp]: "set (sort_by le xs) = set xs"
  by (metis mset_sort_by set_mset_mset)

section \<open>Push instructions\<close>

definition PUSHINT8 :: byte where "PUSHINT8 = 0x00"
definition PUSHINT16 :: byte where "PUSHINT16 = 0x01"
definition PUSHINT32 :: byte where "PUSHINT32 = 0x02"
definition PUSHINT64 :: byte where "PUSHINT64 = 0x03"
definition PUSHDATA1 :: byte where "PUSHDATA1 = 0x0C"
definition PUSHDATA2 :: byte where "PUSHDATA2 = 0x0D"
definition PUSHDATA4 :: byte where "PUSHDATA4 = 0x0E"
definition PUSHM1 :: byte where "PUSHM1 = 0x0F"
definition PUSH0 :: byte where "PUSH0 = 0x10"
definition PUSH1 :: byte where "PUSH1 = 0x11"
definition PUSH16 :: byte where "PUSH16 = 0x20"
definition SYSCALL :: byte where "SYSCALL = 0x41"

lemmas opcode_defs = PUSHINT8_def PUSHINT16_def PUSHINT32_def PUSHINT64_def PUSHDATA1_def
  PUSHDATA2_def PUSHDATA4_def PUSHM1_def PUSH0_def PUSH1_def PUSH16_def SYSCALL_def

type_synonym script_builder = bytes

definition emit_opcode :: "byte \<Rightarrow> script_builder \<Rightarrow> script_builder" where
  "emit_opcode op sb = sb @ [op]"

definition emit_bytes :: "bytes \<Rightarrow> script_builder \<Rightarrow> script_builder" where
  "emit_bytes bs sb = sb @ bs"

definition emit_instruction :: "byte \<Rightarrow> bytes \<Rightarrow> script_builder \<Rightarrow> script_builder" where
  "emit_instruction op operand sb = emit_bytes operand (emit_opcode op sb)"

definition emit_push :: "bytes \<Rightarrow> script_builder \<Rightarrow> script_builder" where
  "emit_push d sb =
     (let len = length d in
      (if len \<le> 0xFF then sb @ [PUSHDATA1, of_nat len]
       else if len \<le> 0xFFFF then sb @ [PUSHDATA2, of_nat (len mod 256), of_nat (len div 256)]
       else sb @ [PUSHDATA4, of_nat (len mod 256), of_nat (len div 2 ^ 8 mod 256),
                  of_nat (len div 2 ^ 16 mod 256), of_nat (len div 2 ^ 24 mod 256)]) @ d)"

fun trim_positive :: "bytes \<Rightarrow> bytes" where
  "trim_positive (b # c # rest) =
     (if b = 0 \<and> c AND 0x80 = 0 then trim_positive (c # rest) else b # c # rest)"
| "trim_positive bs = bs"

fun trim_negative :: "bytes \<Rightarrow> bytes" where
  "trim_negative (b # c # rest) =
     (if b = 0xFF \<and> c AND 0x80 \<noteq> 0 then trim_negative (c # rest) else b # c # rest)"
| "trim_negative bs = bs"

text \<open>
  \<^verbatim>\<open>encode_integer\<close> drops redundant sign bytes from the end of the little-endian form; the
  two trimming functions work on the reversed bytes.
\<close>

definition encode_integer :: "int \<Rightarrow> bytes" where
  "encode_integer value =
     (if value = 0 then []
      else let bs = rev (to_le_bytes (of_int value :: u64)) in
           rev (if value > 0 then trim_positive bs else trim_negative bs))"

definition pad_signed :: "bytes \<Rightarrow> nat \<Rightarrow> bool \<Rightarrow> bytes" where
  "pad_signed bs target_len negative =
     bs @ replicate (target_len - length bs) (if negative then 0xFF else 0x00)"

definition emit_push_int :: "int \<Rightarrow> script_builder \<Rightarrow> script_builder" where
  "emit_push_int value sb =
     (if value = - 1 then emit_opcode PUSHM1 sb
      else if 0 \<le> value \<and> value \<le> 16 then sb @ [PUSH0 + of_int value]
      else let negative = value < 0; bs = encode_integer value;
               (op, target_len) =
                 (if length bs = 1 then (PUSHINT8, 1)
                  else if length bs = 2 then (PUSHINT16, 2)
                  else if length bs = 3 \<or> length bs = 4 then (PUSHINT32, 4)
                  else (PUSHINT64, 8))
           in emit_instruction op (pad_signed bs target_len negative) sb)"

definition CHECK_SIG_HASH :: u32 where "CHECK_SIG_HASH = 0x27b3e756"
definition CHECK_MULTISIG_HASH :: u32 where "CHECK_MULTISIG_HASH = 0x3adcd09e"

definition emit_syscall_hash :: "u32 \<Rightarrow> script_builder \<Rightarrow> script_builder" where
  "emit_syscall_hash h sb = emit_instruction SYSCALL (to_le_bytes h) sb"

section \<open>Invocation scripts\<close>

definition invocation_from_signature :: "bytes \<Rightarrow> script_builder \<Rightarrow> script_builder" where
  "invocation_from_signature signature sb = emit_push signature sb"

definition signature_from_invocation :: "bytes \<Rightarrow> bytes option" where
  "signature_from_invocation s =
     (if length s \<noteq> 66 then None
      else if s ! 0 \<noteq> PUSHDATA1 \<or> s ! 1 \<noteq> 0x40 then None
      else Some (take 64 (drop 2 s)))"

lemma signature_invocation_roundtrip [simp]:
  "length sig = 64 \<Longrightarrow> signature_from_invocation (invocation_from_signature sig []) = Some sig"
  by (simp add: signature_from_invocation_def invocation_from_signature_def emit_push_def
      Let_def opcode_defs)

lemma signature_from_invocation_length:
  "signature_from_invocation s = Some sig \<Longrightarrow> length sig = 64"
  by (auto simp: signature_from_invocation_def split: if_splits)

lemma signature_from_invocation_inverse:
  assumes "signature_from_invocation s = Some sig"
  shows "invocation_from_signature sig [] = s"
proof -
  have s: "length s = 66" "s ! 0 = PUSHDATA1" "s ! 1 = 0x40" "sig = take 64 (drop 2 s)"
    using assms by (auto simp: signature_from_invocation_def split: if_splits)
  have "s = s ! 0 # s ! 1 # drop 2 s"
    using s(1) Cons_nth_drop_Suc [of 0 s] Cons_nth_drop_Suc [of 1 s] by (simp add: numeral_2_eq_2)
  with s show ?thesis
    by (simp add: invocation_from_signature_def emit_push_def Let_def)
qed

section \<open>Verification scripts\<close>

datatype redeem_error = InvalidOperation string

definition bft_threshold :: "nat \<Rightarrow> nat" where
  "bft_threshold n = (if n = 0 then 0 else n - (n - 1) div 3)"

definition signature_redeem_script :: "bytes \<Rightarrow> bytes" where
  "signature_redeem_script public_key =
     [PUSHDATA1, of_nat (length public_key)] @ public_key @ [SYSCALL] @ to_le_bytes CHECK_SIG_HASH"

definition is_signature_contract :: "bytes \<Rightarrow> bool" where
  "is_signature_contract s \<longleftrightarrow>
     length s = 40 \<and> s ! 0 = PUSHDATA1 \<and> s ! 1 = 33 \<and> s ! 35 = SYSCALL
     \<and> take 4 (drop 36 s) = to_le_bytes CHECK_SIG_HASH"

definition emit_keys :: "bytes list \<Rightarrow> script_builder \<Rightarrow> script_builder" where
  "emit_keys keys sb = fold emit_push keys sb"

definition multi_sig_redeem_script_from_points :: "crypto \<Rightarrow> nat \<Rightarrow> ec_point list \<Rightarrow> redeem_error + bytes" where
  "multi_sig_redeem_script_from_points C m public_keys =
     (let n = length public_keys in
      if n = 0 then Inl (InvalidOperation ''No public keys provided for multi-sig contract'')
      else if n > 1024 then
        Inl (InvalidOperation (''Too many public keys: '' @ nat_display n @ '' (max 1024)''))
      else if \<not> (1 \<le> m \<and> m \<le> n) then
        Inl (InvalidOperation (''Invalid multi-sig parameters: m='' @ nat_display m @ '', n='' @ nat_display n))
      else Inr (emit_syscall_hash CHECK_MULTISIG_HASH
                 (emit_push_int (int n)
                    (emit_keys (map point_data (sort_by (ec_le C) public_keys))
                       (emit_push_int (int m) [])))))"

definition read_multisig_count :: "bytes \<Rightarrow> nat \<Rightarrow> (nat \<times> nat) option" where
  "read_multisig_count s offset =
     (if offset \<ge> length s then None
      else let op = s ! offset in
        if op = PUSHINT8 then
          (if offset + 1 < length s then Some (unat (s ! (offset + 1)), 2) else None)
        else if op = PUSHINT16 then
          (if offset + 3 \<le> length s
           then Some (unat (from_le_bytes (take 2 (drop (offset + 1) s)) :: u16), 3) else None)
        else if PUSH1 \<le> op \<and> op \<le> PUSH16 then Some (unat (op - PUSH0), 1)
        else None)"

text \<open>The key loop: the public keys read so far and the offset where it stopped.\<close>

function parse_keys :: "crypto \<Rightarrow> bytes \<Rightarrow> nat \<Rightarrow> bytes list \<Rightarrow> (bytes list \<times> nat) option" where
  "parse_keys C s offset keys =
     (if offset < length s \<and> s ! offset = PUSHDATA1 then
        (if length s \<le> offset + 35 \<or> s ! (offset + 1) \<noteq> 33 then None
         else let public_key = take 33 (drop (offset + 2) s) in
              if \<not> point_from_bytes_ok C public_key then None
              else parse_keys C s (offset + 35) (keys @ [public_key]))
      else Some (keys, offset))"
  by pat_completeness auto
termination
  by (relation "measure (\<lambda>(C, s, offset, keys). length s - offset)") auto

declare parse_keys.simps [simp del]

definition parse_multi_sig_contract :: "crypto \<Rightarrow> bytes \<Rightarrow> (nat \<times> bytes list) option" where
  "parse_multi_sig_contract C s =
     (if length s < 42 then None
      else case read_multisig_count s 0 of
        None \<Rightarrow> None
      | Some (m, m_size) \<Rightarrow>
          if \<not> (1 \<le> m \<and> m \<le> 1024) then None
          else case parse_keys C s m_size [] of
            None \<Rightarrow> None
          | Some (public_keys, offset) \<Rightarrow>
              let n = length public_keys in
              if n < m \<or> n > 1024 then None
              else case read_multisig_count s offset of
                None \<Rightarrow> None
              | Some (n_decoded, n_size) \<Rightarrow>
                  if n_decoded \<noteq> n then None
                  else let offset = offset + n_size in
                    if length s \<noteq> offset + 5 \<or> s ! offset \<noteq> SYSCALL
                       \<or> take 4 (drop (offset + 1) s) \<noteq> to_le_bytes CHECK_MULTISIG_HASH
                    then None
                    else Some (m, public_keys))"

function parse_signatures :: "bytes \<Rightarrow> nat \<Rightarrow> bytes list \<Rightarrow> bytes list option" where
  "parse_signatures invocation offset sigs =
     (if offset < length invocation then
        (if invocation ! offset \<noteq> PUSHDATA1 then None
         else if offset + 1 \<ge> length invocation then None
         else let len = unat (invocation ! (offset + 1)) in
              if len \<noteq> 64 \<or> offset + 2 + len > length invocation then None
              else parse_signatures invocation (offset + 2 + len) (sigs @ [take len (drop (offset + 2) invocation)]))
      else Some sigs)"
  by pat_completeness auto
termination
  by (relation "measure (\<lambda>(invocation, offset, sigs). length invocation - offset)") auto

declare parse_signatures.simps [simp del]

definition parse_multi_sig_invocation :: "bytes \<Rightarrow> nat \<Rightarrow> bytes list option" where
  "parse_multi_sig_invocation invocation required =
     (if required = 0 then None
      else case parse_signatures invocation 0 [] of
        None \<Rightarrow> None
      | Some sigs \<Rightarrow> if length sigs = required then Some sigs else None)"

section \<open>Scripts parse back to what built them\<close>

lemma bit_7_byte: "bit (c::byte) 7 \<longleftrightarrow> odd (unat c div 128)"
proof -
  have "bit c 7 \<longleftrightarrow> bit (unat c) 7" by (simp add: bit_unsigned_iff)
  also have "\<dots> \<longleftrightarrow> odd (unat c div 128)" using bit_iff_odd [of "unat c" 7] by simp
  finally show ?thesis .
qed

lemma and_0x80_iff: "(c::byte) AND 0x80 = 0 \<longleftrightarrow> unat c < 128"
proof -
  have "c AND 0x80 = 0 \<longleftrightarrow> \<not> bit c 7"
    using and_exp_eq_0_iff_not_bit [of c 7] by simp
  moreover have "unat c div 128 = (if unat c < 128 then 0 else 1)"
    using unat_byte_lt [of c] by (auto intro!: div_nat_eqI)
  ultimately show ?thesis using bit_7_byte [of c] by (auto split: if_splits)
qed

lemma emit_push_int_append: "emit_push_int v sb = sb @ emit_push_int v []"
  by (simp add: emit_push_int_def emit_opcode_def emit_instruction_def emit_bytes_def Let_def)

lemma nat_to_le_small:
  assumes "m < 65536"
  shows "nat_to_le 8 m = [of_nat (m mod 256), of_nat (m div 256), 0, 0, 0, 0, 0, 0]"
proof -
  have eight: "nat_to_le 8 m = nat_to_le (Suc (Suc (Suc (Suc (Suc (Suc (Suc (Suc 0)))))))) m"
    by (simp only: eval_nat_numeral BitM.simps)
  have "m div 256 mod 256 = m div 256" "m div 256 div 256 = 0" using assms by auto
  then show ?thesis unfolding eight by simp
qed

lemma encode_integer_small:
  assumes "0 < m" "m < 32768"
  shows "encode_integer (int m) =
    (if m < 128 then [of_nat m] else [of_nat (m mod 256), of_nat (m div 256)])"
proof -
  have le: "to_le_bytes (of_nat m :: u64) = [of_nat (m mod 256), of_nat (m div 256), 0, 0, 0, 0, 0, 0]"
    using assms nat_to_le_small [of m] by (simp add: to_le_bytes_def unat_of_nat)
  have hi: "unat (of_nat (m div 256) :: byte) = m div 256"
    and lo: "unat (of_nat (m mod 256) :: byte) = m mod 256"
    using assms by (simp_all add: unat_of_nat)
  have h0: "(of_nat (m div 256) :: byte) = 0 \<longleftrightarrow> m < 256"
    using hi by (metis div_eq_0_iff unat_eq_zero zero_neq_numeral)
  show ?thesis
    using assms by (cases "m < 256") (auto simp: encode_integer_def le and_0x80_iff hi lo h0 Let_def unat_of_nat)
qed

lemma multisig_count_roundtrip:
  assumes "1 \<le> m" "m \<le> 1024"
  shows "read_multisig_count (pre @ emit_push_int (int m) [] @ post) (length pre)
       = Some (m, length (emit_push_int (int m) []))"
proof -
  consider "m \<le> 16" | "16 < m" "m < 128" | "128 \<le> m" by linarith
  then show ?thesis
  proof cases
    case 1
    have u: "unat (PUSH0 + of_nat m) = 16 + m"
      using 1 by (simp add: PUSH0_def unat_word_ariths unat_of_nat)
    have "PUSH1 \<le> PUSH0 + of_nat m" "PUSH0 + of_nat m \<le> PUSH16"
       "PUSH0 + of_nat m \<noteq> PUSHINT8" "PUSH0 + of_nat m \<noteq> PUSHINT16"
      using u assms 1 by (auto simp: word_le_nat_alt PUSH1_def PUSH16_def PUSHINT8_def PUSHINT16_def)
    with 1 assms show ?thesis
      by (simp add: read_multisig_count_def emit_push_int_def nth_append unat_of_nat)
  next
    case 2
    then show ?thesis
      by (simp add: read_multisig_count_def emit_push_int_def encode_integer_small nth_append
          emit_instruction_def emit_opcode_def emit_bytes_def pad_signed_def unat_of_nat)
  next
    case 3
    have "m mod 256 + 256 * (m div 256) = m" by simp
    moreover have "(PUSHINT16 = PUSHINT8) = False" by (simp add: opcode_defs)
    ultimately show ?thesis using 3 assms
      by (simp add: read_multisig_count_def emit_push_int_def encode_integer_small nth_append
          emit_instruction_def emit_opcode_def emit_bytes_def pad_signed_def unat_of_nat from_le_bytes_def)
  qed
qed

lemma hd_emit_push_int:
  assumes "1 \<le> m" "m \<le> 1024"
  shows "\<exists>b rest. emit_push_int (int m) [] = b # rest \<and> b \<noteq> PUSHDATA1"
proof (cases "m \<le> 16")
  case True
  have "unat (PUSH0 + of_nat m) = 16 + m"
    using True by (simp add: PUSH0_def unat_word_ariths unat_of_nat)
  then have "PUSH0 + of_nat m \<noteq> PUSHDATA1" by (auto simp: PUSHDATA1_def)
  then show ?thesis using True by (simp add: emit_push_int_def)
next
  case False
  then show ?thesis using assms
    by (simp add: emit_push_int_def encode_integer_small
          emit_instruction_def emit_opcode_def emit_bytes_def pad_signed_def opcode_defs)
qed

lemma emit_push_33: "length k = 33 \<Longrightarrow> emit_push k sb = sb @ PUSHDATA1 # 33 # k"
  by (simp add: emit_push_def Let_def)

lemma emit_keys_append:
  "emit_keys ks sb = sb @ emit_keys ks []"
proof (induction ks arbitrary: sb)
  case (Cons k ks)
  have "emit_push k sb = sb @ emit_push k []" by (simp add: emit_push_def Let_def)
  with Cons [of "emit_push k sb"] Cons [of "emit_push k []"] show ?case
    by (simp add: emit_keys_def)
qed (simp add: emit_keys_def)

lemma emit_keys_Cons_33:
  assumes "length k = 33"
  shows "emit_keys (k # ks) sb = emit_keys ks (sb @ PUSHDATA1 # 33 # k)"
  using assms by (simp add: emit_keys_def emit_push_33)

lemma parse_keys_step:
  assumes "length k = 33" "point_from_bytes_ok C k" "rest \<noteq> []"
  shows "parse_keys C (pre @ PUSHDATA1 # 33 # k @ rest) (length pre) acc
       = parse_keys C (pre @ PUSHDATA1 # 33 # k @ rest) (length pre + 35) (acc @ [k])"
proof -
  let ?s = "pre @ PUSHDATA1 # 33 # k @ rest"
  have "?s ! length pre = PUSHDATA1" "?s ! (length pre + 1) = 33"
    "take 33 (drop (length pre + 2) ?s) = k" "length pre + 35 < length ?s" "length pre < length ?s"
    using assms by (simp_all add: nth_append)
  then show ?thesis
    using assms(2) by (subst parse_keys.simps) (simp only: Let_def if_True if_False
        not_le [symmetric] simp_thms)
qed

lemma parse_keys_emitted:
  assumes "\<forall>k \<in> set ks. length k = 33 \<and> point_from_bytes_ok C k" and "b \<noteq> PUSHDATA1"
  shows "parse_keys C (emit_keys ks pre @ b # post) (length pre) acc
       = Some (acc @ ks, length pre + 35 * length ks)"
  using assms(1)
proof (induction ks arbitrary: pre acc)
  case Nil
  then show ?case using assms(2)
    by (subst parse_keys.simps) (simp add: emit_keys_def nth_append)
next
  case (Cons k ks)
  have k: "length k = 33" "point_from_bytes_ok C k" using Cons.prems by auto
  let ?pre = "pre @ PUSHDATA1 # 33 # k"
  have s: "emit_keys (k # ks) pre @ b # post = pre @ PUSHDATA1 # 33 # k @ emit_keys ks [] @ b # post"
    using k(1) emit_keys_append [of ks ?pre] by (simp add: emit_keys_Cons_33)
  have "parse_keys C (emit_keys ks ?pre @ b # post) (length ?pre) (acc @ [k])
      = Some ((acc @ [k]) @ ks, length ?pre + 35 * length ks)"
    by (rule Cons.IH) (use Cons.prems in simp)
  moreover have "parse_keys C (emit_keys (k # ks) pre @ b # post) (length pre) acc
      = parse_keys C (emit_keys (k # ks) pre @ b # post) (length pre + 35) (acc @ [k])"
    unfolding s by (rule parse_keys_step) (use k in simp_all)
  ultimately show ?case using k(1) by (simp add: emit_keys_Cons_33 add.commute)
qed


lemma length_emit_keys_33:
  "\<forall>k \<in> set ks. length k = 33 \<Longrightarrow> length (emit_keys ks sb) = length sb + 35 * length ks"
  by (induction ks arbitrary: sb) (simp_all add: emit_keys_Cons_33 emit_keys_def emit_push_33)

lemma emit_syscall_hash_append:
  "emit_syscall_hash h sb = sb @ SYSCALL # to_le_bytes h"
  by (simp add: emit_syscall_hash_def emit_instruction_def emit_opcode_def emit_bytes_def)

lemma parse_multi_sig_emitted:
  assumes m: "1 \<le> m" "m \<le> length ks" and n: "length ks \<le> 1024"
    and ks: "\<forall>k \<in> set ks. length k = 33 \<and> point_from_bytes_ok C k"
  shows "parse_multi_sig_contract C
           (emit_syscall_hash CHECK_MULTISIG_HASH
             (emit_push_int (int (length ks)) (emit_keys ks (emit_push_int (int m) [])))) = Some (m, ks)"
proof -
  let ?M = "emit_push_int (int m) []" and ?N = "emit_push_int (int (length ks)) []"
  let ?K = "emit_keys ks []" and ?H = "to_le_bytes CHECK_MULTISIG_HASH"
  let ?post = "SYSCALL # ?H"
  have n1: "1 \<le> length ks" using m by linarith
  define s where "s = emit_syscall_hash CHECK_MULTISIG_HASH
             (emit_push_int (int (length ks)) (emit_keys ks ?M))"
  have s: "s = ?M @ ?K @ ?N @ ?post"
    unfolding s_def emit_syscall_hash_append
    by (subst emit_push_int_append, subst emit_keys_append) simp
  have s_keys: "s = emit_keys ks ?M @ ?N @ ?post"
    unfolding s by (subst (2) emit_keys_append) simp
  obtain b rest where b: "?N = b # rest" "b \<noteq> PUSHDATA1" using hd_emit_push_int n n1 by blast
  obtain b' rest' where b': "?M = b' # rest'" using hd_emit_push_int [of m] m n by fastforce
  have len: "length s = length ?M + 35 * length ks + length ?N + 5"
    using length_emit_keys_33 [of ks "[]"] ks unfolding s by simp
  have "length s \<ge> 42" using len b b' n1 by simp
  moreover have "read_multisig_count s 0 = Some (m, length ?M)"
    using multisig_count_roundtrip [of m "[]"] m n unfolding s by simp
  moreover have "parse_keys C s (length ?M) [] = Some (ks, length ?M + 35 * length ks)"
    using parse_keys_emitted [OF ks b(2), of "?M" "rest @ ?post" "[]"] unfolding s_keys b by simp
  moreover have "read_multisig_count s (length ?M + 35 * length ks) = Some (length ks, length ?N)"
    using multisig_count_roundtrip [OF n1 n, of "?M @ ?K" ?post] length_emit_keys_33 [of ks "[]"] ks
    unfolding s by simp
  moreover have "drop (length ?M + 35 * length ks + length ?N) s = ?post"
    using length_emit_keys_33 [of ks "[]"] ks unfolding s by simp
  moreover have "s ! (length ?M + 35 * length ks + length ?N) = SYSCALL"
    using calculation(5) len by (metis hd_drop_conv_nth less_add_same_cancel1 list.sel(1) zero_less_numeral)
  moreover have "take 4 (drop (length ?M + 35 * length ks + length ?N + 1) s) = ?H"
    using arg_cong [OF calculation(5), of "drop 1"] by (simp add: add.commute)
  ultimately show ?thesis
    using m n len unfolding s_def [symmetric]
    by (simp add: parse_multi_sig_contract_def Let_def)
qed

lemma parse_signatures_pushed:
  assumes "\<forall>g \<in> set sigs. length g = 64"
  shows "parse_signatures (pre @ concat (map (\<lambda>g. PUSHDATA1 # 0x40 # g) sigs)) (length pre) acc
       = Some (acc @ sigs)"
  using assms
proof (induction sigs arbitrary: pre acc)
  case Nil
  then show ?case by (subst parse_signatures.simps) simp
next
  case (Cons g sigs)
  let ?rest = "concat (map (\<lambda>g. PUSHDATA1 # 0x40 # g) sigs)"
  let ?s = "pre @ PUSHDATA1 # 0x40 # g @ ?rest"
  have g: "length g = 64" using Cons.prems by simp
  have e: "?s ! length pre = PUSHDATA1" "?s ! (length pre + 1) = 0x40"
    "take 64 (drop (length pre + 2) ?s) = g" "length pre + 66 \<le> length ?s"
    using g by (simp_all add: nth_append)
  then have "parse_signatures ?s (length pre) acc = parse_signatures ?s (length pre + 66) (acc @ [g])"
    by (subst parse_signatures.simps) (simp del: append_assoc, simp only: add.commute)
  also have "\<dots> = Some ((acc @ [g]) @ sigs)"
    using Cons.IH [of "pre @ PUSHDATA1 # 0x40 # g" "acc @ [g]"] Cons.prems g by (simp add: add.commute)
  finally show ?case by simp
qed

definition demo_crypto :: crypto where
  "demo_crypto = \<lparr> sha256_fn = \<lambda>d. take 32 (d @ replicate 32 0),
     ripemd160_fn = \<lambda>d. take 20 (d @ replicate 20 0),
     p256_coords = \<lambda>d. Some (d, d), k256_coords = \<lambda>d. None, ed25519_key = \<lambda>d. False,
     p256_verify = \<lambda>pk msg sig. sig = take 64 (take 32 (sum_list msg # pk) @ replicate 64 0) \<rparr>"

text \<open>
  C20: multi-signature verification scripts parse back. For every set of at most 1024 valid
  33-byte keys and every threshold between 1 and the number of keys, the script builder
  succeeds, and the parser that recognises such scripts returns exactly that threshold and
  the keys in the order in which the builder sorts them, whichever of the three integer
  push encodings the two counts need.
\<close>

theorem multisig_script_roundtrip:
  assumes "1 \<le> m" and "m \<le> length keys" and "length keys \<le> 1024"
    and "\<forall>k \<in> set keys. length (point_data k) = 33 \<and> point_from_bytes_ok C (point_data k)"
  shows "\<exists>s. multi_sig_redeem_script_from_points C m keys = Inr s
           \<and> parse_multi_sig_contract C s = Some (m, map point_data (sort_by (ec_le C) keys))"
proof -
  have "multi_sig_redeem_script_from_points C m keys = Inr (emit_syscall_hash CHECK_MULTISIG_HASH
          (emit_push_int (int (length keys))
            (emit_keys (map point_data (sort_by (ec_le C) keys)) (emit_push_int (int m) []))))"
    using assms(1-3) by (auto simp: multi_sig_redeem_script_from_points_def Let_def)
  with parse_multi_sig_emitted [of m "map point_data (sort_by (ec_le C) keys)" C] assms
  show ?thesis by simp
qed

theorem multisig_script_roundtrip_witness:
  "\<exists>s. multi_sig_redeem_script_from_points demo_crypto 1 [ECPoint Secp256r1 (2 # replicate 32 1)] = Inr s
       \<and> parse_multi_sig_contract demo_crypto s = Some (1, [2 # replicate 32 1])"
  using multisig_script_roundtrip [of 1 "[ECPoint Secp256r1 (2 # replicate 32 1)]" demo_crypto]
  by (simp add: point_from_bytes_ok_def parse_p256_point_def demo_crypto_def sort_by_def)

end
