(* ===== verification/Neo_Merkle.thy ===== *)
theory Neo_Merkle
  imports Neo_Script
begin

text \<open>
  \<^verbatim>\<open>neo-crypto/src/hashes/merkle_tree.rs\<close>: the tree construction, the buffer-based root
  computation used for blocks, trimming by bloom-filter flags and the depth-first hash array.
  The two root computations agree, the tree built is a perfect tree over the hashes, and
  trimming keeps the root, keeps every parent hash equal to the hash of its children and
  never drops a flagged leaf.
\<close>

section \<open>The tree\<close>

datatype merkle_node =
  MerkleTreeNode (node_hash: uint256) (node_left: "merkle_node option") (node_right: "merkle_node option")

definition leaf :: "uint256 \<Rightarrow> merkle_node" where
  "leaf h = MerkleTreeNode h None None"

definition is_pruned :: "merkle_node \<Rightarrow> bool" where
  "is_pruned n \<longleftrightarrow> node_left n = None \<and> node_right n = None"

record merkle_tree =
  tree_root :: "merkle_node option"
  tree_depth :: nat

definition hash_pair :: "crypto \<Rightarrow> uint256 \<Rightarrow> uint256 \<Rightarrow> uint256" where
  "hash_pair C l r = uint256_from_array (hash256 C (uint256_to_bytes l @ uint256_to_bytes r))"

definition parent_node :: "crypto \<Rightarrow> merkle_node \<Rightarrow> merkle_node \<Rightarrow> merkle_node" where
  "parent_node C l r = MerkleTreeNode (hash_pair C (node_hash l) (node_hash r)) (Some l) (Some r)"

fun parent_nodes :: "crypto \<Rightarrow> merkle_node list \<Rightarrow> merkle_node list" where
  "parent_nodes C [] = []"
| "parent_nodes C [l] = [parent_node C l l]"
| "parent_nodes C (l # r # rest) = parent_node C l r # parent_nodes C rest"

lemma length_parent_nodes [simp]: "length (parent_nodes C ns) = (length ns + 1) div 2"
  by (induction C ns rule: parent_nodes.induct) auto

function build_levels :: "crypto \<Rightarrow> merkle_node list \<Rightarrow> nat \<Rightarrow> merkle_node list \<times> nat" where
  "build_levels C ns depth =
     (if length ns > 1 then build_levels C (parent_nodes C ns) (depth + 1) else (ns, depth))"
  by pat_completeness auto
termination
  by (relation "measure (\<lambda>(C, ns, depth). length ns)") auto

declare build_levels.simps [simp del]

definition merkle_new :: "crypto \<Rightarrow> uint256 list \<Rightarrow> merkle_tree" where
  "merkle_new C hashes =
     (if hashes = [] then \<lparr> tree_root = None, tree_depth = 0 \<rparr>
      else let (ns, depth) = build_levels C (map leaf hashes) 1 in
        \<lparr> tree_root = (if ns = [] then None else Some (last ns)), tree_depth = depth \<rparr>)"

definition merkle_root :: "merkle_tree \<Rightarrow> uint256 option" where
  "merkle_root t = map_option node_hash (tree_root t)"

definition compute_root_with_tree :: "crypto \<Rightarrow> uint256 list \<Rightarrow> uint256 option" where
  "compute_root_with_tree C hashes = merkle_root (merkle_new C hashes)"

section \<open>The root without the tree\<close>

fun next_level :: "crypto \<Rightarrow> uint256 list \<Rightarrow> uint256 list" where
  "next_level C [] = []"
| "next_level C [l] = [hash_pair C l l]"
| "next_level C (l # r # rest) = hash_pair C l r # next_level C rest"

lemma length_next_level [simp]: "length (next_level C hs) = (length hs + 1) div 2"
  by (induction C hs rule: next_level.induct) auto

function reduce_levels :: "crypto \<Rightarrow> uint256 list \<Rightarrow> uint256 list" where
  "reduce_levels C current =
     (if length current > 1 then reduce_levels C (next_level C current) else current)"
  by pat_completeness auto
termination
  by (relation "measure (\<lambda>(C, current). length current)") auto

declare reduce_levels.simps [simp del]

definition compute_root :: "crypto \<Rightarrow> uint256 list \<Rightarrow> uint256 option" where
  "compute_root C hashes =
     (if hashes = [] then None
      else if length hashes = 1 then Some (hashes ! 0)
      else let current = reduce_levels C hashes in
           if current = [] then None else Some (last current))"

section \<open>Trimming and collecting\<close>

definition flag_at :: "bool list \<Rightarrow> nat \<Rightarrow> bool" where
  "flag_at flags i = (i < length flags \<and> flags ! i)"

function trim_node :: "merkle_node \<Rightarrow> nat \<Rightarrow> nat \<Rightarrow> bool list \<Rightarrow> merkle_node" where
  "trim_node node index depth flags =
     (if depth \<le> 1 \<or> node_left node = None then node
      else if depth = 2 then
        (if \<not> flag_at flags (index * 2) \<and> \<not> flag_at flags (index * 2 + 1)
         then MerkleTreeNode (node_hash node) None None else node)
      else
        let left = map_option (\<lambda>l. trim_node l (index * 2) (depth - 1) flags) (node_left node);
            right = map_option (\<lambda>r. trim_node r (index * 2 + 1) (depth - 1) flags) (node_right node);
            left_pruned = (case left of Some c \<Rightarrow> is_pruned c | None \<Rightarrow> True);
            right_pruned = (case right of Some c \<Rightarrow> is_pruned c | None \<Rightarrow> True)
        in if left_pruned \<and> right_pruned then MerkleTreeNode (node_hash node) None None
           else MerkleTreeNode (node_hash node) left right)"
  by pat_completeness auto
termination
  by (relation "measure (\<lambda>(node, index, depth, flags). depth)") auto

declare trim_node.simps [simp del]

definition merkle_trim :: "merkle_tree \<Rightarrow> bool list \<Rightarrow> merkle_tree" where
  "merkle_trim t flags =
     (case tree_root t of
        None \<Rightarrow> t
      | Some root \<Rightarrow>
          if tree_depth t \<le> 1 then t
          else let required = 2 ^ (tree_depth t - 1);
                   padded = take required flags @ replicate (required - length flags) False
               in t \<lparr> tree_root := Some (trim_node root 0 (tree_depth t) padded) \<rparr>)"

fun depth_first_collect :: "merkle_node \<Rightarrow> uint256 list" where
  "depth_first_collect (MerkleTreeNode h None r) = [h]"
| "depth_first_collect (MerkleTreeNode h (Some l) None) = depth_first_collect l"
| "depth_first_collect (MerkleTreeNode h (Some l) (Some r)) =
     depth_first_collect l @ depth_first_collect r"

definition to_hash_array :: "merkle_tree \<Rightarrow> uint256 list" where
  "to_hash_array t = (case tree_root t of None \<Rightarrow> [] | Some root \<Rightarrow> depth_first_collect root)"

section \<open>Perfect trees\<close>

text \<open>
  \<open>perfect C d n\<close>: every leaf is \<open>d\<close> levels below \<open>n\<close> and every parent hash is the hash
  of its children. \<open>hashed C n\<close> is the second half, which survives trimming.
\<close>

fun perfect :: "crypto \<Rightarrow> nat \<Rightarrow> merkle_node \<Rightarrow> bool" where
  "perfect C 0 n \<longleftrightarrow> is_pruned n"
| "perfect C (Suc d) (MerkleTreeNode h (Some l) (Some r)) \<longleftrightarrow>
     h = hash_pair C (node_hash l) (node_hash r) \<and> perfect C d l \<and> perfect C d r"
| "perfect C (Suc d) _ \<longleftrightarrow> False"

fun hashed :: "crypto \<Rightarrow> merkle_node \<Rightarrow> bool" where
  "hashed C (MerkleTreeNode h None None) = True"
| "hashed C (MerkleTreeNode h (Some l) (Some r)) \<longleftrightarrow>
     h = hash_pair C (node_hash l) (node_hash r) \<and> hashed C l \<and> hashed C r"
| "hashed C _ = False"

lemma perfect_0E:
  assumes "perfect C 0 n"
  obtains h where "n = leaf h"
  using assms by (cases n) (auto simp: is_pruned_def leaf_def)

lemma perfect_SucE:
  assumes "perfect C (Suc d) n"
  obtains l r where "n = parent_node C l r" "perfect C d l" "perfect C d r"
  using assms by (cases "(C, Suc d, n)" rule: perfect.cases) (auto simp: parent_node_def)

lemma is_pruned_simps [simp]: "is_pruned (leaf h)" "\<not> is_pruned (parent_node C l r)"
  by (simp_all add: leaf_def parent_node_def is_pruned_def)

lemma perfect_parent_node [simp]:
  "perfect C (Suc d) (parent_node C l r) \<longleftrightarrow> perfect C d l \<and> perfect C d r"
  by (simp add: parent_node_def)

lemma collect_parent_node [simp]:
  "depth_first_collect (parent_node C l r) = depth_first_collect l @ depth_first_collect r"
  by (simp add: parent_node_def)

lemma collect_pruned: "is_pruned n \<Longrightarrow> depth_first_collect n = [node_hash n]"
  by (cases n) (auto simp: is_pruned_def)

lemma collect_leaf [simp]: "depth_first_collect (leaf h) = [h]"
  by (simp add: leaf_def)

lemma perfect_leaf [simp]: "perfect C 0 (leaf h)"
  by (simp add: leaf_def is_pruned_def)

lemma perfect_hashed: "perfect C d n \<Longrightarrow> hashed C n"
proof (induction d arbitrary: n)
  case 0
  then show ?case by (elim perfect_0E) (simp add: leaf_def)
next
  case (Suc d)
  then show ?case by (elim perfect_SucE) (simp add: parent_node_def)
qed

lemma perfect_length: "perfect C d n \<Longrightarrow> length (depth_first_collect n) = 2 ^ d"
proof (induction d arbitrary: n)
  case 0
  then show ?case by (elim perfect_0E) simp
next
  case (Suc d)
  then show ?case by (elim perfect_SucE) simp
qed

lemma parent_nodes_perfect:
  "\<forall>n \<in> set ns. perfect C d n \<Longrightarrow> \<forall>n \<in> set (parent_nodes C ns). perfect C (Suc d) n"
  by (induction C ns rule: parent_nodes.induct) auto

lemma parent_nodes_collect:
  "\<exists>extra. concat (map depth_first_collect (parent_nodes C ns))
     = concat (map depth_first_collect ns) @ extra"
proof (induction C ns rule: parent_nodes.induct)
  case (3 C l r rest)
  then show ?case by auto
qed auto

lemma build_levels_perfect:
  assumes "ns \<noteq> []" "\<forall>n \<in> set ns. perfect C d n" "build_levels C ns (Suc d) = (ms, depth)"
  shows "\<exists>n d' extra. ms = [n] \<and> depth = Suc d' \<and> perfect C d' n
           \<and> depth_first_collect n = concat (map depth_first_collect ns) @ extra"
  using assms
proof (induction C ns "Suc d" arbitrary: d rule: build_levels.induct)
  case (1 C ns d)
  show ?case
  proof (cases "length ns > 1")
    case True
    have "parent_nodes C ns \<noteq> []" using True length_parent_nodes [of C ns] by fastforce
    moreover have "build_levels C (parent_nodes C ns) (Suc (Suc d)) = (ms, depth)"
      using 1(4) True by (simp add: build_levels.simps [of C ns])
    moreover note parent_nodes_perfect [OF 1(3)]
    ultimately show ?thesis
      using 1(1) [OF True] parent_nodes_collect [of C ns] by fastforce
  next
    case False
    then obtain n where "ns = [n]" using 1(2) by (cases ns) auto
    then show ?thesis using 1(3,4) by (auto simp: build_levels.simps)
  qed
qed

lemma merkle_new_perfect:
  assumes "hashes \<noteq> []"
  obtains n d extra where "merkle_new C hashes = \<lparr> tree_root = Some n, tree_depth = Suc d \<rparr>"
    "perfect C d n" "depth_first_collect n = hashes @ extra"
proof -
  obtain ms depth where b: "build_levels C (map leaf hashes) (Suc 0) = (ms, depth)" by fastforce
  have "concat (map depth_first_collect (map leaf hashes)) = hashes" by (induction hashes) auto
  then obtain n d extra where "ms = [n]" "depth = Suc d" "perfect C d n"
      "depth_first_collect n = hashes @ extra"
    using build_levels_perfect [OF _ _ b] assms by auto
  with that b assms show thesis by (simp add: merkle_new_def)
qed

section \<open>Trimming perfect trees\<close>

lemma node_hash_trim [simp]: "node_hash (trim_node n i d flags) = node_hash n"
  by (subst trim_node.simps) (simp add: Let_def)

lemma trim_parent_node_2:
  "trim_node (parent_node C l r) i (Suc (Suc 0)) flags =
     (if \<not> flag_at flags (i * 2) \<and> \<not> flag_at flags (i * 2 + 1)
      then leaf (node_hash (parent_node C l r)) else parent_node C l r)"
  by (subst trim_node.simps) (simp add: parent_node_def leaf_def numeral_2_eq_2)

lemma trim_parent_node_Suc:
  "trim_node (parent_node C l r) i (Suc (Suc (Suc d))) flags =
     (let l' = trim_node l (i * 2) (Suc (Suc d)) flags; r' = trim_node r (i * 2 + 1) (Suc (Suc d)) flags in
      if is_pruned l' \<and> is_pruned r' then leaf (node_hash (parent_node C l r))
      else parent_node C l' r')"
  by (subst trim_node.simps) (simp add: parent_node_def leaf_def Let_def)

lemma hashed_simps [simp]:
  "hashed C (leaf h)"
  "hashed C (parent_node C l r) \<longleftrightarrow> hashed C l \<and> hashed C r"
  by (simp_all add: leaf_def parent_node_def)

lemma trim_hashed: "perfect C d n \<Longrightarrow> hashed C (trim_node n i (Suc d) flags)"
proof (induction d arbitrary: n i)
  case 0
  then show ?case by (elim perfect_0E) (simp add: trim_node.simps leaf_def)
next
  case (Suc d)
  obtain l r where n: "n = parent_node C l r" and lr: "perfect C d l" "perfect C d r"
    using Suc.prems by (elim perfect_SucE)
  show ?case
    using Suc.IH lr perfect_hashed [OF lr(1)] perfect_hashed [OF lr(2)] unfolding n
    by (cases d) (simp_all add: trim_parent_node_2 trim_parent_node_Suc Let_def)
qed

text \<open>A subtree of depth two or more is pruned exactly when no leaf under it is flagged.\<close>

lemma range_split:
  fixes i w :: nat
  shows "(\<forall>k < 2 * w. P (i * (2 * w) + k)) \<longleftrightarrow>
         (\<forall>k < w. P (i * 2 * w + k)) \<and> (\<forall>k < w. P ((i * 2 + 1) * w + k))"
proof -
  have "(\<forall>k < 2 * w. P (i * (2 * w) + k)) \<longleftrightarrow>
        (\<forall>k < w. P (i * (2 * w) + k)) \<and> (\<forall>k < w. P (i * (2 * w) + (w + k)))"
  proof (intro iffI conjI allI impI)
    fix k
    assume a: "(\<forall>k < w. P (i * (2 * w) + k)) \<and> (\<forall>k < w. P (i * (2 * w) + (w + k)))" and "k < 2 * w"
    then show "P (i * (2 * w) + k)"
      by (cases "k < w") (auto dest: spec [of _ "k - w"])
  qed auto
  then show ?thesis by (simp add: algebra_simps)
qed

lemma trim_pruned_iff:
  assumes "perfect C (Suc d) n"
  shows "is_pruned (trim_node n i (Suc (Suc d)) flags)
     \<longleftrightarrow> (\<forall>k < 2 ^ Suc d. \<not> flag_at flags (i * 2 ^ Suc d + k))"
  using assms
proof (induction d arbitrary: n i)
  case 0
  have "(\<forall>k < (2::nat). \<not> flag_at flags (i * 2 + k)) \<longleftrightarrow> \<not> flag_at flags (i * 2) \<and> \<not> flag_at flags (i * 2 + 1)"
    by (auto simp: less_2_cases_iff)
  with 0 show ?case by (elim perfect_SucE) (simp add: trim_parent_node_2)
next
  case (Suc d)
  obtain l r where n: "n = parent_node C l r" and lr: "perfect C (Suc d) l" "perfect C (Suc d) r"
    using Suc.prems by (rule perfect_SucE)
  show ?case
    using range_split [of "2 ^ Suc d" "\<lambda>k. \<not> flag_at flags k" i]
      Suc.IH [OF lr(1), of "i * 2"] Suc.IH [OF lr(2), of "i * 2 + 1"]
    unfolding n by (simp add: trim_parent_node_Suc Let_def)
qed

lemma trim_keeps_flagged:
  assumes "perfect C d n" "k < 2 ^ d" "flag_at flags (i * 2 ^ d + k)"
  shows "depth_first_collect n ! k \<in> set (depth_first_collect (trim_node n i (Suc d) flags))"
  using assms
proof (induction d arbitrary: n i k)
  case 0
  then show ?case by (elim perfect_0E) (simp add: trim_node.simps)
next
  case (Suc d)
  obtain l r where n: "n = parent_node C l r" and lr: "perfect C d l" "perfect C d r"
    using Suc.prems by (elim perfect_SucE)
  have np: "\<not> is_pruned (trim_node n i (Suc (Suc d)) flags)"
    using trim_pruned_iff [OF Suc.prems(1)] Suc.prems(2,3) by blast
  show ?case
  proof (cases d)
    case 0
    have "trim_node n i (Suc (Suc d)) flags = n"
      using np unfolding n 0 by (auto simp: trim_parent_node_2)
    then show ?thesis
      using Suc.prems(2) perfect_length [OF Suc.prems(1)] by (metis nth_mem)
  next
    case (Suc d')
    let ?l = "trim_node l (i * 2) (Suc d) flags" and ?r = "trim_node r (i * 2 + 1) (Suc d) flags"
    have t: "trim_node n i (Suc (Suc d)) flags = parent_node C ?l ?r"
      using np unfolding n Suc by (auto simp: trim_parent_node_Suc Let_def)
    show ?thesis
    proof (cases "k < 2 ^ d")
      case True
      then have "depth_first_collect l ! k \<in> set (depth_first_collect ?l)"
        using Suc.IH [OF lr(1), of k "i * 2"] Suc.prems(3) by (simp add: algebra_simps)
      then show ?thesis using True perfect_length [OF lr(1)] unfolding t unfolding n by (simp add: nth_append)
    next
      case False
      then have "depth_first_collect r ! (k - 2 ^ d) \<in> set (depth_first_collect ?r)"
        using Suc.IH [OF lr(2), of "k - 2 ^ d" "i * 2 + 1"] Suc.prems(2,3)
        by (simp add: algebra_simps)
      then show ?thesis using False perfect_length [OF lr(1)] unfolding t unfolding n by (simp add: nth_append)
    qed
  qed
qed

section \<open>Properties\<close>

lemma map_hash_parent_nodes: "map node_hash (parent_nodes C ns) = next_level C (map node_hash ns)"
  by (induction C ns rule: parent_nodes.induct) (auto simp: parent_node_def)

lemma reduce_levels_hashes:
  "reduce_levels C (map node_hash ns) = map node_hash (fst (build_levels C ns d))"
proof (induction C ns d rule: build_levels.induct)
  case (1 C ns d)
  then show ?case
    by (subst reduce_levels.simps, subst build_levels.simps) (simp add: map_hash_parent_nodes)
qed

lemma flag_at_padded:
  "k < w \<Longrightarrow> flag_at (take w flags @ replicate (w - length flags) False) k = flag_at flags k"
  by (auto simp: flag_at_def nth_append)

text \<open>
  C12: the buffer-based root computation used when a block is assembled and the root of the
  explicitly built tree are the same function of the hash list, for every list (empty, odd and
  even lengths) and every hash function.
\<close>

theorem merkle_root_equivalence:
  "compute_root C hashes = compute_root_with_tree C hashes"
proof (cases "hashes = []")
  case True
  then show ?thesis
    by (simp add: compute_root_def compute_root_with_tree_def merkle_new_def merkle_root_def)
next
  case False
  obtain ns depth where b: "build_levels C (map leaf hashes) 1 = (ns, depth)" by fastforce
  have h: "map node_hash (map leaf hashes) = hashes" by (simp add: leaf_def comp_def)
  have r: "reduce_levels C hashes = map node_hash ns"
    using reduce_levels_hashes [of C "map leaf hashes" 1] unfolding b h by simp
  have "length hashes = 1 \<Longrightarrow> reduce_levels C hashes = hashes" by (simp add: reduce_levels.simps)
  then have "compute_root C hashes =
      (if reduce_levels C hashes = [] then None else Some (last (reduce_levels C hashes)))"
    using False by (auto simp: compute_root_def last_conv_nth Let_def)
  with r b False show ?thesis
    by (simp add: compute_root_with_tree_def merkle_new_def merkle_root_def last_map)
qed

text \<open>
  C19: trimming a tree by bloom-filter flags leaves its root hash unchanged, leaves every
  parent that survives equal to the hash of its two children, and never loses a flagged leaf:
  the hash of every flagged transaction is still in the hash array sent to the peer. When
  nothing is flagged the whole tree collapses to its root hash.
\<close>

theorem merkle_trim_sound:
  "merkle_root (merkle_trim (merkle_new C hashes) flags) = compute_root_with_tree C hashes
   \<and> (\<forall>n. tree_root (merkle_trim (merkle_new C hashes) flags) = Some n \<longrightarrow> hashed C n)
   \<and> (\<forall>i. i < length hashes \<and> flag_at flags i \<longrightarrow>
          hashes ! i \<in> set (to_hash_array (merkle_trim (merkle_new C hashes) flags)))
   \<and> (hashes \<noteq> [] \<and> (\<forall>i. \<not> flag_at flags i) \<longrightarrow>
          map Some (to_hash_array (merkle_trim (merkle_new C hashes) flags)) = [compute_root_with_tree C hashes])"
proof (cases "hashes = []")
  case True
  then show ?thesis
    by (simp add: merkle_new_def merkle_trim_def merkle_root_def compute_root_with_tree_def)
next
  case False
  then obtain n d extra where t: "merkle_new C hashes = \<lparr> tree_root = Some n, tree_depth = Suc d \<rparr>"
    and n: "perfect C d n" "depth_first_collect n = hashes @ extra"
    by (rule merkle_new_perfect)
  let ?padded = "take (2 ^ d) flags @ replicate (2 ^ d - length flags) False"
  define n' where "n' = (if d = 0 then n else trim_node n 0 (Suc d) ?padded)"
  have t': "merkle_trim (merkle_new C hashes) flags = \<lparr> tree_root = Some n', tree_depth = Suc d \<rparr>"
    by (simp add: merkle_trim_def t n'_def Let_def)
  have pr: "depth_first_collect n' = [node_hash n]" if "\<forall>i. \<not> flag_at flags i"
  proof (cases d)
    case 0
    then show ?thesis using n(1) by (simp add: n'_def collect_pruned)
  next
    case (Suc d')
    then have "is_pruned n'"
      using that trim_pruned_iff [of C d' n 0 ?padded] n(1) by (simp add: n'_def flag_at_padded)
    then show ?thesis by (simp add: collect_pruned) (simp add: n'_def)
  qed
  have "length hashes \<le> 2 ^ d" using perfect_length [OF n(1)] n(2) by simp
  moreover have "depth_first_collect n ! i \<in> set (depth_first_collect n')"
    if "i < 2 ^ d" "flag_at flags i" for i
    using that trim_keeps_flagged [OF n(1), of i ?padded 0] perfect_length [OF n(1)]
    by (cases "d = 0") (auto simp: n'_def flag_at_padded intro: nth_mem)
  ultimately have "\<forall>i. i < length hashes \<and> flag_at flags i \<longrightarrow> hashes ! i \<in> set (depth_first_collect n')"
    using n(2) by (metis nth_append order_less_le_trans)
  moreover have "hashed C n'" "node_hash n' = node_hash n"
    using trim_hashed [OF n(1)] perfect_hashed [OF n(1)] by (simp_all add: n'_def)
  ultimately show ?thesis
    using pr unfolding t' by (simp add: t to_hash_array_def merkle_root_def compute_root_with_tree_def)
qed

theorem merkle_trim_sound_witness:
  "UInt256 3 0 0 0 \<in> set (to_hash_array (merkle_trim
      (merkle_new demo_crypto [UInt256 1 0 0 0, UInt256 2 0 0 0, UInt256 3 0 0 0]) [False, False, True]))
   \<and> map Some (to_hash_array (merkle_trim (merkle_new demo_crypto [UInt256 1 0 0 0, UInt256 2 0 0 0]) [False]))
     = [compute_root_with_tree demo_crypto [UInt256 1 0 0 0, UInt256 2 0 0 0]]"
proof
  let ?h = "[UInt256 1 0 0 0, UInt256 2 0 0 0, UInt256 3 0 0 0]"
  have "2 < length ?h \<and> flag_at [False, False, True] 2" by (simp add: flag_at_def)
  with merkle_trim_sound [of demo_crypto ?h "[False, False, True]"]
  have "?h ! 2 \<in> set (to_hash_array (merkle_trim (merkle_new demo_crypto ?h) [False, False, True]))"
    by blast
  then show "UInt256 3 0 0 0 \<in> set (to_hash_array (merkle_trim (merkle_new demo_crypto ?h) [False, False, True]))"
    by simp
next
  have "\<forall>i. \<not> flag_at [False] i" by (auto simp: flag_at_def less_Suc_eq)
  then show "map Some (to_hash_array (merkle_trim (merkle_new demo_crypto [UInt256 1 0 0 0, UInt256 2 0 0 0]) [False]))
     = [compute_root_with_tree demo_crypto [UInt256 1 0 0 0, UInt256 2 0 0 0]]"
    using merkle_trim_sound [of demo_crypto "[UInt256 1 0 0 0, UInt256 2 0 0 0]" "[False]"] by blast
qed

end
