(* ===== verification/Dbft_Context.thy ===== *)
theory Dbft_Context
  imports Neo_HashMap Neo_Merkle
begin

text \<open>
  \<^verbatim>\<open>neo-consensus/src/context\<close> with the error and enumeration types of
  \<^verbatim>\<open>errors/error.rs\<close> and \<^verbatim>\<open>protocol\<close>: the dBFT round state, its quorum arithmetic and speaker
  rotation, timers, liveness accounting, replay cache, round resets, signature tables,
  transaction availability and block-size policy.
\<close>

unbundle bit_operations_syntax

section \<open>Enumerations and errors\<close>

datatype change_view_reason =
  Timeout | ChangeAgreement | TxNotFound | TxRejectedByPolicy | TxInvalid | BlockRejectedByPolicy

fun reason_to_byte :: "change_view_reason \<Rightarrow> byte" where
  "reason_to_byte Timeout = 0"
| "reason_to_byte ChangeAgreement = 1"
| "reason_to_byte TxNotFound = 2"
| "reason_to_byte TxRejectedByPolicy = 3"
| "reason_to_byte TxInvalid = 4"
| "reason_to_byte BlockRejectedByPolicy = 5"

definition reason_from_byte :: "byte \<Rightarrow> change_view_reason option" where
  "reason_from_byte b =
     (if b = 0 then Some Timeout else if b = 1 then Some ChangeAgreement
      else if b = 2 then Some TxNotFound else if b = 3 then Some TxRejectedByPolicy
      else if b = 4 then Some TxInvalid else if b = 5 then Some BlockRejectedByPolicy else None)"

lemma reason_byte_roundtrip [simp]: "reason_from_byte (reason_to_byte r) = Some r"
  by (cases r) (simp_all add: reason_from_byte_def)

datatype consensus_message_type =
  ChangeView | PrepareRequest | PrepareResponse | Commit | RecoveryRequest | RecoveryMessage

fun type_to_byte :: "consensus_message_type \<Rightarrow> byte" where
  "type_to_byte ChangeView = 0x00"
| "type_to_byte PrepareRequest = 0x20"
| "type_to_byte PrepareResponse = 0x21"
| "type_to_byte Commit = 0x30"
| "type_to_byte RecoveryRequest = 0x40"
| "type_to_byte RecoveryMessage = 0x41"

definition type_from_byte :: "byte \<Rightarrow> consensus_message_type option" where
  "type_from_byte b =
     (if b = 0x00 then Some ChangeView else if b = 0x20 then Some PrepareRequest
      else if b = 0x21 then Some PrepareResponse else if b = 0x30 then Some Commit
      else if b = 0x40 then Some RecoveryRequest else if b = 0x41 then Some RecoveryMessage
      else None)"

lemma type_byte_roundtrip [simp]: "type_from_byte (type_to_byte t) = Some t"
  by (cases t) (simp_all add: type_from_byte_def)

datatype consensus_error =
    InvalidView u32 u32
  | InvalidViewNumber byte byte
  | InvalidProposal string
  | SignatureVerificationFailed string
  | InvalidSignatureLength nat nat
  | HashMismatch uint256 uint256
  | InvalidPrimary byte byte
  | InvalidValidatorIndex byte
  | DuplicateValidator byte
  | NotValidator
  | ConsensusTimeout string
  | StateError string
  | WrongBlock u32 u32
  | WrongView byte byte
  | AlreadyReceived byte
  | ChannelError string
  | ChannelSendError
  | PersistenceError string
  | IoError
  | SerializationError string
  | BincodeError
  | InsufficientSignatures nat nat

datatype consensus_state = Initial | Primary | Backup | ViewChanging | Committed

section \<open>The round state\<close>

record tx_metrics =
  tx_size :: nat
  tx_system_fee :: int

record validator_info =
  validator_index :: byte
  public_key :: ec_point
  script_hash :: uint160

record consensus_context =
  block_index :: u32
  view_number :: byte
  validators :: "validator_info list"
  my_index :: "byte option"
  round_state :: consensus_state
  view_start_time :: u64
  timer_extension :: u64
  expected_block_time :: u64
  version :: u32
  prev_hash :: uint256
  previous_block_timestamp :: u64
  next_consensus :: uint160
  proposed_block_hash :: "uint256 option"
  preparation_hash :: "uint256 option"
  proposed_timestamp :: u64
  proposed_tx_hashes :: "uint256 list"
  available_tx_hashes :: "uint256 hashset"
  available_tx_metrics :: "(uint256, tx_metrics) hashmap"
  max_block_size :: u32
  max_block_system_fee :: int
  nonce :: u64
  prepare_request_received :: bool
  transaction_request_sent :: bool
  transaction_request_sent_at :: "u64 option"
  commit_recovery_sent_at :: "u64 option"
  change_view_retry_at :: "u64 option"
  prepare_responses :: "(byte, bytes) hashmap"
  prepare_response_hashes :: "(byte, uint256) hashmap"
  commits :: "(byte, bytes) hashmap"
  commit_view_numbers :: "(byte, byte) hashmap"
  change_views :: "(byte, byte \<times> change_view_reason) hashmap"
  invalid_transactions :: "(uint256, byte hashset) hashmap"
  prepare_request_invocation :: "bytes option"
  change_view_invocations :: "(byte, bytes) hashmap"
  commit_invocations :: "(byte, bytes) hashmap"
  last_change_view_timestamps :: "(byte, u64) hashmap"
  last_seen_messages :: "(byte, u32) hashmap"
  seen_message_hashes :: "uint256 list"

section \<open>Defaults and construction\<close>

definition DEFAULT_BLOCK_TIME_MS :: u64 where "DEFAULT_BLOCK_TIME_MS = 15000"
definition DEFAULT_MAX_BLOCK_SIZE :: u32 where "DEFAULT_MAX_BLOCK_SIZE = 2097152"
definition DEFAULT_MAX_BLOCK_SYSTEM_FEE :: int where "DEFAULT_MAX_BLOCK_SYSTEM_FEE = 150000000000"

definition effective_block_time :: "u64 option \<Rightarrow> u64" where
  "effective_block_time block_time_ms =
     (case block_time_ms of
        Some t \<Rightarrow> if t > 0 then t else DEFAULT_BLOCK_TIME_MS
      | None \<Rightarrow> DEFAULT_BLOCK_TIME_MS)"

definition context_new :: "u32 \<Rightarrow> validator_info list \<Rightarrow> byte option \<Rightarrow> u64 option \<Rightarrow> consensus_context" where
  "context_new idx vs my block_time_ms = \<lparr>
     block_index = idx, view_number = 0, validators = vs, my_index = my,
     round_state = Initial, view_start_time = 0, timer_extension = 0,
     expected_block_time = effective_block_time block_time_ms,
     version = 0, prev_hash = uint256_zero, previous_block_timestamp = 0,
     next_consensus = uint160_zero, proposed_block_hash = None, preparation_hash = None,
     proposed_timestamp = 0, proposed_tx_hashes = [], available_tx_hashes = [],
     available_tx_metrics = [], max_block_size = DEFAULT_MAX_BLOCK_SIZE,
     max_block_system_fee = DEFAULT_MAX_BLOCK_SYSTEM_FEE, nonce = 0,
     prepare_request_received = False, transaction_request_sent = False,
     transaction_request_sent_at = None, commit_recovery_sent_at = None,
     change_view_retry_at = None, prepare_responses = [], prepare_response_hashes = [],
     commits = [], commit_view_numbers = [], change_views = [], invalid_transactions = [],
     prepare_request_invocation = None, change_view_invocations = [], commit_invocations = [],
     last_change_view_timestamps = [], last_seen_messages = [], seen_message_hashes = [] \<rparr>"

section \<open>Quorums and the speaker\<close>

definition validator_count :: "consensus_context \<Rightarrow> nat" where
  "validator_count c = length (validators c)"

definition quorum_f :: "consensus_context \<Rightarrow> nat" where
  "quorum_f c = (validator_count c - 1) div 3"

definition quorum_m :: "consensus_context \<Rightarrow> nat" where
  "quorum_m c = validator_count c - quorum_f c"

definition record_invalid_transactions :: "byte \<Rightarrow> uint256 list \<Rightarrow> consensus_context \<Rightarrow> consensus_context" where
  "record_invalid_transactions v hashes c =
     fold (\<lambda>h c. c \<lparr> invalid_transactions := hm_insert h
             (hs_insert v (case hm_get (invalid_transactions c) h of Some vs \<Rightarrow> vs | None \<Rightarrow> []))
             (invalid_transactions c) \<rparr>) hashes c"

definition invalid_tx_hashes_over_f :: "consensus_context \<Rightarrow> uint256 list" where
  "invalid_tx_hashes_over_f c =
     sort_by (\<lambda>a b. bytes_le (uint256_to_bytes a) (uint256_to_bytes b))
       (map fst (filter (\<lambda>(_, reporters). hs_len reporters > quorum_f c) (invalid_transactions c)))"

definition primary_index :: "consensus_context \<Rightarrow> byte" where
  "primary_index c =
     (let n = int (validator_count c) in
      if n = 0 then 0
      else of_int ((int (unat (block_index c)) - int (unat (view_number c))) mod n))"

definition is_primary :: "consensus_context \<Rightarrow> bool" where
  "is_primary c \<longleftrightarrow> my_index c = Some (primary_index c)"

definition is_backup :: "consensus_context \<Rightarrow> bool" where
  "is_backup c = (case my_index c of Some idx \<Rightarrow> idx \<noteq> primary_index c | None \<Rightarrow> False)"

definition has_enough_prepare_responses :: "consensus_context \<Rightarrow> bool" where
  "has_enough_prepare_responses c \<longleftrightarrow>
     (if prepare_request_received c then 1 else 0) + hm_len (prepare_responses c) \<ge> quorum_m c"

definition commit_view :: "consensus_context \<Rightarrow> byte \<Rightarrow> byte" where
  "commit_view c idx =
     (case hm_get (commit_view_numbers c) idx of Some v \<Rightarrow> v | None \<Rightarrow> view_number c)"

definition has_enough_commits :: "consensus_context \<Rightarrow> bool" where
  "has_enough_commits c \<longleftrightarrow>
     length (filter (\<lambda>idx. commit_view c idx = view_number c) (hm_keys (commits c))) \<ge> quorum_m c"

definition has_enough_change_views :: "byte \<Rightarrow> consensus_context \<Rightarrow> bool" where
  "has_enough_change_views new_view c \<longleftrightarrow>
     length (filter (\<lambda>(v, _). v \<ge> new_view) (hm_values (change_views c))) \<ge> quorum_m c"

section \<open>Liveness\<close>

definition update_last_seen_message :: "byte \<Rightarrow> u32 \<Rightarrow> consensus_context \<Rightarrow> consensus_context" where
  "update_last_seen_message v idx c =
     c \<lparr> last_seen_messages := hm_insert v idx (last_seen_messages c) \<rparr>"

definition count_committed :: "consensus_context \<Rightarrow> nat" where
  "count_committed c = hm_len (commits c)"

definition count_failed :: "consensus_context \<Rightarrow> nat" where
  "count_failed c =
     (if last_seen_messages c = [] then 0
      else let threshold = saturating_sub (block_index c) 1 in
        length (filter (\<lambda>v. case hm_get (last_seen_messages c) (validator_index v) of
                              None \<Rightarrow> True | Some last_block \<Rightarrow> last_block < threshold)
                       (validators c)))"

definition more_than_f_nodes_committed_or_lost :: "consensus_context \<Rightarrow> bool" where
  "more_than_f_nodes_committed_or_lost c \<longleftrightarrow> count_committed c + count_failed c > quorum_f c"

definition view_changing :: "consensus_context \<Rightarrow> bool" where
  "view_changing c =
     (case my_index c of
        None \<Rightarrow> False
      | Some i \<Rightarrow> (case hm_get (change_views c) i of
                     Some (new_view, _) \<Rightarrow> new_view > view_number c | None \<Rightarrow> False))"

definition not_accepting_payloads_due_to_view_changing :: "consensus_context \<Rightarrow> bool" where
  "not_accepting_payloads_due_to_view_changing c \<longleftrightarrow>
     view_changing c \<and> \<not> more_than_f_nodes_committed_or_lost c"

section \<open>Round resets\<close>

definition reset_for_new_view :: "byte \<Rightarrow> u64 \<Rightarrow> consensus_context \<Rightarrow> consensus_context" where
  "reset_for_new_view new_view timestamp c =
     (let c = c \<lparr> view_number := new_view, view_start_time := timestamp, timer_extension := 0 \<rparr>;
          c = c \<lparr> round_state := (if is_primary c then Primary else Backup) \<rparr>
      in c \<lparr> proposed_block_hash := None, preparation_hash := None, proposed_timestamp := 0,
             proposed_tx_hashes := [], available_tx_hashes := [], available_tx_metrics := [],
             nonce := 0, prepare_request_received := False, transaction_request_sent := False,
             transaction_request_sent_at := None, commit_recovery_sent_at := None,
             change_view_retry_at := None, prepare_responses := [], prepare_response_hashes := [],
             prepare_request_invocation := None \<rparr>)"

definition seed_last_seen :: "u32 \<Rightarrow> consensus_context \<Rightarrow> (byte, u32) hashmap" where
  "seed_last_seen idx c =
     (let previous = last_seen_messages c;
          previous_height = saturating_sub idx 1;
          seen = fold (\<lambda>v m. hm_insert (validator_index v)
                       (case hm_get previous (validator_index v) of Some b \<Rightarrow> b | None \<Rightarrow> previous_height) m)
                   (validators c) []
      in case my_index c of Some i \<Rightarrow> hm_insert i idx seen | None \<Rightarrow> seen)"

definition reset_for_new_block :: "u32 \<Rightarrow> u64 \<Rightarrow> consensus_context \<Rightarrow> consensus_context" where
  "reset_for_new_block idx timestamp c =
     (let c = c \<lparr> block_index := idx, view_number := 0, view_start_time := timestamp, timer_extension := 0 \<rparr>;
          c = c \<lparr> round_state := (if is_primary c then Primary else Backup) \<rparr>
      in c \<lparr> version := 0, prev_hash := uint256_zero, previous_block_timestamp := 0,
             next_consensus := uint160_zero, proposed_block_hash := None, preparation_hash := None,
             proposed_timestamp := 0, proposed_tx_hashes := [], available_tx_hashes := [],
             available_tx_metrics := [], nonce := 0, prepare_request_received := False,
             transaction_request_sent := False, transaction_request_sent_at := None,
             commit_recovery_sent_at := None, change_view_retry_at := None,
             prepare_responses := [], prepare_response_hashes := [], commits := [],
             commit_view_numbers := [], change_views := [], invalid_transactions := [],
             prepare_request_invocation := None, change_view_invocations := [],
             commit_invocations := [], last_change_view_timestamps := [],
             last_seen_messages := seed_last_seen idx c, seen_message_hashes := [] \<rparr>)"

section \<open>Timers\<close>

definition base_block_time :: "consensus_context \<Rightarrow> u64" where
  "base_block_time c =
     (if expected_block_time c > 0 then expected_block_time c else DEFAULT_BLOCK_TIME_MS)"

definition get_timeout :: "consensus_context \<Rightarrow> u64" where
  "get_timeout c = push_bit (unat ((view_number c + 1) AND 0x1F)) (base_block_time c)"

definition prepare_request_delay :: "consensus_context \<Rightarrow> u64" where
  "prepare_request_delay c = base_block_time c"

definition prepare_request_follow_up_delay :: "consensus_context \<Rightarrow> u64" where
  "prepare_request_follow_up_delay c =
     (let timeout = get_timeout c in
      if view_number c = 0 then saturating_sub timeout (base_block_time c) else timeout)"

definition primary_timeout_delay :: "consensus_context \<Rightarrow> u64" where
  "primary_timeout_delay c =
     saturating_add (prepare_request_delay c) (prepare_request_follow_up_delay c)"

definition commit_recovery_resend_delay :: "consensus_context \<Rightarrow> u64" where
  "commit_recovery_resend_delay c = push_bit 1 (base_block_time c)"

definition change_view_retry_delay :: "consensus_context \<Rightarrow> u64" where
  "change_view_retry_delay c =
     (let expected_view = saturating_add (view_number c) 1 in
      push_bit (unat ((expected_view + 1) AND 0x1F)) (base_block_time c))"

definition is_timed_out :: "u64 \<Rightarrow> consensus_context \<Rightarrow> bool" where
  "is_timed_out current_time c \<longleftrightarrow> current_time \<ge> view_start_time c + get_timeout c + timer_extension c"

definition commit_sent :: "consensus_context \<Rightarrow> bool" where
  "commit_sent c =
     (case my_index c of
        Some i \<Rightarrow> hm_contains (commits c) i \<and> hm_get (commit_view_numbers c) i = Some (view_number c)
      | None \<Rightarrow> False)"

definition extend_timer_by_factor :: "u64 \<Rightarrow> consensus_context \<Rightarrow> consensus_context" where
  "extend_timer_by_factor max_delay_in_block_times c =
     (if my_index c = None \<or> view_changing c \<or> commit_sent c then c
      else let m = of_nat (max (quorum_m c) 1);
               extension = saturating_mul max_delay_in_block_times (base_block_time c) div m
           in c \<lparr> timer_extension := max (timer_extension c) extension \<rparr>)"

section \<open>Replay protection\<close>

text \<open>
  The cache is the \<^verbatim>\<open>lru\<close> crate's map, seen as the list of its keys. \<open>contains\<close> does not touch
  the recency order; \<open>put\<close> of a new key is the parameter \<open>lru_put\<close>.
\<close>

type_synonym lru_put = "uint256 list \<Rightarrow> uint256 \<Rightarrow> uint256 list"

definition has_seen_message :: "uint256 \<Rightarrow> consensus_context \<Rightarrow> bool" where
  "has_seen_message h c \<longleftrightarrow> h \<in> set (seen_message_hashes c)"

definition mark_message_seen :: "lru_put \<Rightarrow> uint256 \<Rightarrow> consensus_context \<Rightarrow> consensus_context" where
  "mark_message_seen put h c =
     (if h \<in> set (seen_message_hashes c) then c
      else c \<lparr> seen_message_hashes := put (seen_message_hashes c) h \<rparr>)"

section \<open>Signature tables\<close>

definition add_prepare_response ::
  "byte \<Rightarrow> bytes \<Rightarrow> uint256 option \<Rightarrow> (consensus_context, consensus_error, unit) run" where
  "add_prepare_response v invocation_script hash c =
     (if unat v \<ge> validator_count c then (Inl (InvalidValidatorIndex v), c)
      else let c = c \<lparr> prepare_responses := hm_insert v invocation_script (prepare_responses c) \<rparr>;
               c = (case hash of
                      Some h \<Rightarrow> c \<lparr> prepare_response_hashes := hm_insert v h (prepare_response_hashes c) \<rparr>
                    | None \<Rightarrow> c)
           in (Inr (), c))"

definition add_commit :: "byte \<Rightarrow> byte \<Rightarrow> bytes \<Rightarrow> (consensus_context, consensus_error, unit) run" where
  "add_commit v view signature c =
     (if unat v \<ge> validator_count c then (Inl (InvalidValidatorIndex v), c)
      else (Inr (), c \<lparr> commits := hm_insert v signature (commits c),
                       commit_view_numbers := hm_insert v view (commit_view_numbers c) \<rparr>))"

definition add_change_view ::
  "byte \<Rightarrow> byte \<Rightarrow> change_view_reason \<Rightarrow> u64 \<Rightarrow> (consensus_context, consensus_error, unit) run" where
  "add_change_view v new_view reason timestamp c =
     (if unat v \<ge> validator_count c then (Inl (InvalidValidatorIndex v), c)
      else (Inr (), c \<lparr> change_views := hm_insert v (new_view, reason) (change_views c),
                       last_change_view_timestamps := hm_insert v timestamp (last_change_view_timestamps c) \<rparr>))"

definition collect_commit_signatures :: "consensus_context \<Rightarrow> (byte \<times> bytes) list" where
  "collect_commit_signatures c =
     filter (\<lambda>(idx, _). commit_view c idx = view_number c) (commits c)"

section \<open>Transactions and block policy\<close>

definition mark_available_transactions :: "uint256 list \<Rightarrow> consensus_context \<Rightarrow> consensus_context" where
  "mark_available_transactions tx_hashes c =
     c \<lparr> available_tx_hashes :=
           fold (\<lambda>h acc. if h \<in> set (proposed_tx_hashes c) then hs_insert h acc else acc) tx_hashes [] \<rparr>"

definition mark_transaction_available :: "uint256 \<Rightarrow> consensus_context \<Rightarrow> bool \<times> consensus_context" where
  "mark_transaction_available h c =
     (if h \<notin> set (proposed_tx_hashes c) then (False, c)
      else (\<not> hs_contains (available_tx_hashes c) h,
            c \<lparr> available_tx_hashes := hs_insert h (available_tx_hashes c) \<rparr>))"

definition is_proposed_transaction :: "uint256 \<Rightarrow> consensus_context \<Rightarrow> bool" where
  "is_proposed_transaction h c \<longleftrightarrow> h \<in> set (proposed_tx_hashes c)"

definition has_available_transaction :: "uint256 \<Rightarrow> consensus_context \<Rightarrow> bool" where
  "has_available_transaction h c \<longleftrightarrow> hs_contains (available_tx_hashes c) h"

definition has_missing_proposed_transactions :: "consensus_context \<Rightarrow> bool" where
  "has_missing_proposed_transactions c \<longleftrightarrow>
     proposed_tx_hashes c \<noteq> [] \<and> length (proposed_tx_hashes c) > hs_len (available_tx_hashes c)"

definition set_max_block_policy :: "u32 \<Rightarrow> int \<Rightarrow> consensus_context \<Rightarrow> consensus_context" where
  "set_max_block_policy max_size max_fee c =
     c \<lparr> max_block_size := max_size, max_block_system_fee := max_fee \<rparr>"

definition record_transaction_metrics :: "uint256 \<Rightarrow> tx_metrics \<Rightarrow> consensus_context \<Rightarrow> consensus_context" where
  "record_transaction_metrics h metrics c =
     (if h \<in> set (proposed_tx_hashes c)
      then c \<lparr> available_tx_metrics := hm_insert h metrics (available_tx_metrics c) \<rparr> else c)"

definition unchecked_multisig_verification_script :: "crypto \<Rightarrow> nat \<Rightarrow> ec_point list \<Rightarrow> bytes" where
  "unchecked_multisig_verification_script C m keys =
     emit_syscall_hash CHECK_MULTISIG_HASH
       (emit_push_int (int (length keys))
          (emit_keys (map point_data (sort_by (ec_le C) keys)) (emit_push_int (int m) [])))"

definition expected_witness_verification_script :: "crypto \<Rightarrow> validator_info list \<Rightarrow> bytes" where
  "expected_witness_verification_script C vs =
     (let m = bft_threshold (length vs); keys = map public_key vs in
      case multi_sig_redeem_script_from_points C m keys of
        Inr s \<Rightarrow> s
      | Inl _ \<Rightarrow> unchecked_multisig_verification_script C m keys)"

definition witness_size :: "bytes \<Rightarrow> bytes \<Rightarrow> nat" where
  "witness_size invocation verification =
     get_var_size_bytes invocation + get_var_size_bytes verification"

definition expected_block_size_without_transactions :: "crypto \<Rightarrow> nat \<Rightarrow> consensus_context \<Rightarrow> nat" where
  "expected_block_size_without_transactions C expected_transactions c =
     (let m = bft_threshold (length (validators c));
          verification = expected_witness_verification_script C (validators c);
          invocation = fold (\<lambda>_. emit_push (replicate 64 0)) [0..<m] []
      in 4 + 32 + 32 + 8 + 8 + 4 + 1 + 20 + 1 + witness_size invocation verification
         + get_var_size_usize expected_transactions)"

definition expected_block_size :: "crypto \<Rightarrow> consensus_context \<Rightarrow> nat" where
  "expected_block_size C c =
     (let tx_count = hm_len (available_tx_metrics c);
          base = expected_block_size_without_transactions C tx_count c;
          tx_bytes = sum_list (map tx_size (hm_values (available_tx_metrics c))) mod 2 ^ 64
      in min (base + tx_bytes) (2 ^ 64 - 1))"

definition i64_saturating_add :: "int \<Rightarrow> int \<Rightarrow> int" where
  "i64_saturating_add a b = max (- (2 ^ 63)) (min (2 ^ 63 - 1) (a + b))"

definition expected_block_system_fee :: "consensus_context \<Rightarrow> int" where
  "expected_block_system_fee c =
     fold (\<lambda>m acc. i64_saturating_add acc (tx_system_fee m)) (hm_values (available_tx_metrics c)) 0"

section \<open>Crash-recovery state\<close>

record persisted_state =
  ps_block_index :: u32
  ps_view_number :: byte
  ps_proposed_block_hash :: "uint256 option"
  ps_preparation_hash :: "uint256 option"
  ps_proposed_timestamp :: u64
  ps_proposed_tx_hashes :: "uint256 list"
  ps_nonce :: u64
  ps_prepare_request_received :: bool
  ps_prepare_responses :: "(byte, bytes) hashmap"
  ps_prepare_response_hashes :: "(byte, uint256) hashmap"
  ps_commits :: "(byte, bytes) hashmap"
  ps_commit_view_numbers :: "(byte, byte) hashmap"
  ps_change_views :: "(byte, byte \<times> change_view_reason) hashmap"
  ps_prepare_request_invocation :: "bytes option"
  ps_change_view_invocations :: "(byte, bytes) hashmap"
  ps_change_view_timestamps :: "(byte, u64) hashmap"
  ps_commit_invocations :: "(byte, bytes) hashmap"

definition to_persisted :: "consensus_context \<Rightarrow> persisted_state" where
  "to_persisted c = \<lparr>
     ps_block_index = block_index c, ps_view_number = view_number c,
     ps_proposed_block_hash = proposed_block_hash c, ps_preparation_hash = preparation_hash c,
     ps_proposed_timestamp = proposed_timestamp c, ps_proposed_tx_hashes = proposed_tx_hashes c,
     ps_nonce = nonce c, ps_prepare_request_received = prepare_request_received c,
     ps_prepare_responses = prepare_responses c,
     ps_prepare_response_hashes = prepare_response_hashes c,
     ps_commits = commits c, ps_commit_view_numbers = commit_view_numbers c,
     ps_change_views = change_views c,
     ps_prepare_request_invocation = prepare_request_invocation c,
     ps_change_view_invocations = change_view_invocations c,
     ps_change_view_timestamps = last_change_view_timestamps c,
     ps_commit_invocations = commit_invocations c \<rparr>"

definition from_persisted :: "persisted_state \<Rightarrow> validator_info list \<Rightarrow> byte option \<Rightarrow> consensus_context" where
  "from_persisted p vs my = \<lparr>
     block_index = ps_block_index p, view_number = ps_view_number p, validators = vs, my_index = my,
     round_state = Initial, view_start_time = 0, timer_extension = 0, expected_block_time = 0,
     version = 0, prev_hash = uint256_zero, previous_block_timestamp = 0,
     next_consensus = uint160_zero, proposed_block_hash = ps_proposed_block_hash p,
     preparation_hash = ps_preparation_hash p, proposed_timestamp = ps_proposed_timestamp p,
     proposed_tx_hashes = ps_proposed_tx_hashes p, available_tx_hashes = [],
     available_tx_metrics = [], max_block_size = DEFAULT_MAX_BLOCK_SIZE,
     max_block_system_fee = DEFAULT_MAX_BLOCK_SYSTEM_FEE, nonce = ps_nonce p,
     prepare_request_received = ps_prepare_request_received p, transaction_request_sent = False,
     transaction_request_sent_at = None, commit_recovery_sent_at = None,
     change_view_retry_at = None, prepare_responses = ps_prepare_responses p,
     prepare_response_hashes = ps_prepare_response_hashes p, commits = ps_commits p,
     commit_view_numbers = ps_commit_view_numbers p, change_views = ps_change_views p,
     invalid_transactions = [], prepare_request_invocation = ps_prepare_request_invocation p,
     change_view_invocations = ps_change_view_invocations p,
     commit_invocations = ps_commit_invocations p,
     last_change_view_timestamps = ps_change_view_timestamps p, last_seen_messages = [],
     seen_message_hashes = [] \<rparr>"

text \<open>
  The \<^verbatim>\<open>bincode\<close> crate is a pair of parameters: \<open>ser\<close> may fail, \<open>de\<close> rejects bytes that are
  not an encoding.
\<close>

definition context_to_bytes :: "(persisted_state \<Rightarrow> bytes option) \<Rightarrow> consensus_context \<Rightarrow> consensus_error + bytes" where
  "context_to_bytes ser c =
     (case ser (to_persisted c) of Some bs \<Rightarrow> Inr bs | None \<Rightarrow> Inl BincodeError)"

definition context_from_bytes ::
  "(bytes \<Rightarrow> persisted_state option) \<Rightarrow> bytes \<Rightarrow> validator_info list \<Rightarrow> byte option \<Rightarrow> consensus_error + consensus_context" where
  "context_from_bytes de bs vs my =
     (case de bs of Some p \<Rightarrow> Inr (from_persisted p vs my) | None \<Rightarrow> Inl BincodeError)"

end
