(* ===== verification/Dbft_Messages.thy ===== *)
theory Dbft_Messages
  imports Dbft_Context
begin

text \<open>
  \<^verbatim>\<open>neo-consensus/src/messages\<close>: the envelope, the six dBFT message bodies with their
  serializers, parsers and validators, and the compact payloads of a recovery message. Every
  parser inverts its serializer, and the validators accept exactly what they document.
\<close>

section \<open>Envelope\<close>

record consensus_payload =
  p_network :: u32
  p_block_index :: u32
  p_validator_index :: byte
  p_view_number :: byte
  p_message_type :: consensus_message_type
  p_data :: bytes
  p_witness :: bytes

definition payload_new ::
  "u32 \<Rightarrow> u32 \<Rightarrow> byte \<Rightarrow> byte \<Rightarrow> consensus_message_type \<Rightarrow> bytes \<Rightarrow> consensus_payload" where
  "payload_new net idx v view ty d = \<lparr> p_network = net, p_block_index = idx, p_validator_index = v,
     p_view_number = view, p_message_type = ty, p_data = d, p_witness = [] \<rparr>"

definition consensus_message_bytes ::
  "consensus_message_type \<Rightarrow> u32 \<Rightarrow> byte \<Rightarrow> byte \<Rightarrow> bytes \<Rightarrow> bytes" where
  "consensus_message_bytes ty idx v view body =
     [type_to_byte ty] @ to_le_bytes idx @ [v] @ [view] @ body"

definition to_message_bytes :: "consensus_payload \<Rightarrow> bytes" where
  "to_message_bytes p = consensus_message_bytes (p_message_type p) (p_block_index p)
     (p_validator_index p) (p_view_number p) (p_data p)"

definition from_message_bytes :: "u32 \<Rightarrow> bytes \<Rightarrow> bytes \<Rightarrow> consensus_error + consensus_payload" where
  "from_message_bytes net message_bytes wit =
     (if length message_bytes < 1 + 4 + 1 + 1 then Inl (InvalidProposal ''Consensus message too short'')
      else case type_from_byte (message_bytes ! 0) of
        None \<Rightarrow> Inl (InvalidProposal ''Invalid consensus message type'')
      | Some ty \<Rightarrow> Inr \<lparr> p_network = net,
          p_block_index = from_le_bytes (take 4 (drop 1 message_bytes)),
          p_validator_index = message_bytes ! 5, p_view_number = message_bytes ! 6,
          p_message_type = ty, p_data = drop 7 message_bytes, p_witness = wit \<rparr>)"

definition set_witness :: "bytes \<Rightarrow> consensus_payload \<Rightarrow> consensus_payload" where
  "set_witness wit p = p \<lparr> p_witness := wit \<rparr>"

definition append_uint256_array :: "uint256 list \<Rightarrow> bytes \<Rightarrow> bytes" where
  "append_uint256_array hashes dst =
     fold (\<lambda>h d. d @ uint256_to_bytes h) hashes (write_var_int (of_nat (length hashes)) dst)"

definition uint256_array_encoded_len :: "uint256 list \<Rightarrow> nat" where
  "uint256_array_encoded_len hashes = encoded_len (of_nat (length hashes)) + length hashes * 32"

text \<open>The duplicate scan with a hash set.\<close>

fun unique_from :: "'a hashset \<Rightarrow> 'a list \<Rightarrow> bool" where
  "unique_from seen [] = True"
| "unique_from seen (x # xs) = (if hs_contains seen x then False else unique_from (hs_insert x seen) xs)"

section \<open>PrepareRequest\<close>

record prepare_request_message =
  prq_block_index :: u32
  prq_view_number :: byte
  prq_validator_index :: byte
  prq_version :: u32
  prq_prev_hash :: uint256
  prq_timestamp :: u64
  prq_nonce :: u64
  prq_transaction_hashes :: "uint256 list"

definition prepare_request_serialize :: "prepare_request_message \<Rightarrow> bytes" where
  "prepare_request_serialize m =
     append_uint256_array (prq_transaction_hashes m)
       (to_le_bytes (prq_version m) @ uint256_to_bytes (prq_prev_hash m)
        @ to_le_bytes (prq_timestamp m) @ to_le_bytes (prq_nonce m))"

text \<open>The fields after the header, shared by the two parsers of the source.\<close>

definition read_prepare_request_fields ::
  "u32 \<Rightarrow> byte \<Rightarrow> byte \<Rightarrow> (memory_reader, consensus_error, prepare_request_message) run" where
  "read_prepare_request_fields idx view v =
     and_then (map_err (\<lambda>_. InvalidProposal ''PrepareRequest version'') read_uint32) (\<lambda>ver.
     if ver \<noteq> 0 then err (InvalidProposal ''PrepareRequest version must be 0'')
     else and_then (map_err (\<lambda>_. InvalidProposal ''PrepareRequest prev_hash'') (deserialize_fn uint256_impl)) (\<lambda>ph.
     and_then (map_err (\<lambda>_. InvalidProposal ''PrepareRequest timestamp'') read_uint64) (\<lambda>ts.
     and_then (map_err (\<lambda>_. InvalidProposal ''PrepareRequest nonce'') read_uint64) (\<lambda>no.
     and_then (map_err (\<lambda>_. InvalidProposal ''PrepareRequest tx hashes'')
                 (deserialize_array uint256_impl 65535)) (\<lambda>hashes.
     if \<not> unique_from [] hashes
     then err (InvalidProposal ''PrepareRequest transaction hashes are duplicate'')
     else ok \<lparr> prq_block_index = idx, prq_view_number = view, prq_validator_index = v,
               prq_version = ver, prq_prev_hash = ph, prq_timestamp = ts, prq_nonce = no,
               prq_transaction_hashes = hashes \<rparr>)))))"

definition prepare_request_deserialize_body ::
  "bytes \<Rightarrow> u32 \<Rightarrow> byte \<Rightarrow> byte \<Rightarrow> consensus_error + prepare_request_message" where
  "prepare_request_deserialize_body d idx view v =
     fst (read_prepare_request_fields idx view v (memory_reader_new d))"

definition prepare_request_deserialize_from_reader ::
  "(memory_reader, consensus_error, prepare_request_message) run" where
  "prepare_request_deserialize_from_reader =
     and_then (map_err (\<lambda>_. InvalidProposal ''PrepareRequest type'') read_byte) (\<lambda>ty.
     if ty \<noteq> type_to_byte PrepareRequest
     then err (InvalidProposal ''Invalid embedded PrepareRequest type'')
     else and_then (map_err (\<lambda>_. InvalidProposal ''PrepareRequest block_index'') read_uint32) (\<lambda>idx.
     and_then (map_err (\<lambda>_. InvalidProposal ''PrepareRequest validator_index'') read_byte) (\<lambda>v.
     and_then (map_err (\<lambda>_. InvalidProposal ''PrepareRequest view_number'') read_byte) (\<lambda>view.
     read_prepare_request_fields idx view v))))"

definition prepare_request_validate ::
  "prepare_request_message \<Rightarrow> byte \<Rightarrow> u32 \<Rightarrow> consensus_error + unit" where
  "prepare_request_validate m expected_primary max_txs =
     (if prq_validator_index m \<noteq> expected_primary
      then Inl (InvalidPrimary expected_primary (prq_validator_index m))
      else if prq_version m \<noteq> 0 then Inl (InvalidProposal ''PrepareRequest version must be 0'')
      else if length (prq_transaction_hashes m) > unat max_txs
      then Inl (InvalidProposal ''PrepareRequest exceeds MaxTransactionsPerBlock'')
      else if \<not> unique_from [] (prq_transaction_hashes m)
      then Inl (InvalidProposal ''PrepareRequest transaction hashes are duplicate'')
      else Inr ())"

section \<open>PrepareResponse\<close>

record prepare_response_message =
  prs_block_index :: u32
  prs_view_number :: byte
  prs_validator_index :: byte
  prs_preparation_hash :: uint256

definition prepare_response_serialize :: "prepare_response_message \<Rightarrow> bytes" where
  "prepare_response_serialize m = uint256_to_bytes (prs_preparation_hash m)"

definition prepare_response_deserialize_body ::
  "bytes \<Rightarrow> u32 \<Rightarrow> byte \<Rightarrow> byte \<Rightarrow> consensus_error + prepare_response_message" where
  "prepare_response_deserialize_body d idx view v =
     (if length d < 32 then Inl (InvalidProposal ''PrepareResponse invalid hash length'')
      else case uint256_from_bytes (take 32 d) of
        None \<Rightarrow> Inl (InvalidProposal ''PrepareResponse invalid hash bytes'')
      | Some h \<Rightarrow> Inr \<lparr> prs_block_index = idx, prs_view_number = view, prs_validator_index = v,
                       prs_preparation_hash = h \<rparr>)"

definition prepare_response_validate :: "prepare_response_message \<Rightarrow> uint256 \<Rightarrow> consensus_error + unit" where
  "prepare_response_validate m expected_hash =
     (if prs_preparation_hash m \<noteq> expected_hash
      then Inl (HashMismatch expected_hash (prs_preparation_hash m)) else Inr ())"

section \<open>ChangeView\<close>

record change_view_message =
  cv_block_index :: u32
  cv_view_number :: byte
  cv_validator_index :: byte
  cv_timestamp :: u64
  cv_reason :: change_view_reason
  cv_rejected_hashes :: "uint256 list"

definition reason_carries_rejected_hashes :: "change_view_reason \<Rightarrow> bool" where
  "reason_carries_rejected_hashes r \<longleftrightarrow> r = TxRejectedByPolicy \<or> r = TxInvalid"

definition new_view_number :: "change_view_message \<Rightarrow> consensus_error + byte" where
  "new_view_number m =
     (case checked_add (cv_view_number m) 1 of
        Some v \<Rightarrow> Inr v
      | None \<Rightarrow> Inl (InvalidProposal ''View number overflow''))"

definition change_view_serialize :: "change_view_message \<Rightarrow> bytes" where
  "change_view_serialize m =
     (let bs = to_le_bytes (cv_timestamp m) @ [reason_to_byte (cv_reason m)] in
      if reason_carries_rejected_hashes (cv_reason m)
      then append_uint256_array (cv_rejected_hashes m) bs else bs)"

definition read_change_view ::
  "u32 \<Rightarrow> byte \<Rightarrow> byte \<Rightarrow> (memory_reader, consensus_error, change_view_message) run" where
  "read_change_view idx view v =
     and_then (map_err (\<lambda>_. InvalidProposal ''ChangeView message too short'') read_uint64) (\<lambda>ts.
     and_then (map_err (\<lambda>_. InvalidProposal ''ChangeView message too short'') read_byte) (\<lambda>reason_byte.
     let reason = (case reason_from_byte reason_byte of Some r \<Rightarrow> r | None \<Rightarrow> Timeout) in
     and_then (if reason_carries_rejected_hashes reason
               then map_err (\<lambda>_. InvalidProposal ''ChangeView rejected hashes'')
                      (deserialize_array uint256_impl 65535)
               else ok []) (\<lambda>hashes.
     ok \<lparr> cv_block_index = idx, cv_view_number = view, cv_validator_index = v,
          cv_timestamp = ts, cv_reason = reason, cv_rejected_hashes = hashes \<rparr>)))"

definition change_view_deserialize ::
  "bytes \<Rightarrow> u32 \<Rightarrow> byte \<Rightarrow> byte \<Rightarrow> consensus_error + change_view_message" where
  "change_view_deserialize d idx view v = fst (read_change_view idx view v (memory_reader_new d))"

definition change_view_size :: "change_view_message \<Rightarrow> nat" where
  "change_view_size m = 8 + 1 +
     (if reason_carries_rejected_hashes (cv_reason m)
      then get_var_size_serializable_slice uint256_impl (cv_rejected_hashes m) else 0)"

definition change_view_validate :: "change_view_message \<Rightarrow> consensus_error + unit" where
  "change_view_validate m =
     (case new_view_number m of
        Inl e \<Rightarrow> Inl e
      | Inr new_view \<Rightarrow>
          if new_view \<le> cv_view_number m
          then Inl (InvalidProposal ''Invalid ChangeView new view number'') else Inr ())"

section \<open>Commit and RecoveryRequest\<close>

record commit_message =
  cm_block_index :: u32
  cm_view_number :: byte
  cm_validator_index :: byte
  cm_signature :: bytes

definition commit_serialize :: "commit_message \<Rightarrow> bytes" where
  "commit_serialize m = cm_signature m"

definition commit_validate :: "commit_message \<Rightarrow> consensus_error + unit" where
  "commit_validate m =
     (if length (cm_signature m) \<noteq> 64 then Inl (InvalidSignatureLength 64 (length (cm_signature m)))
      else Inr ())"

record recovery_request_message =
  rr_block_index :: u32
  rr_view_number :: byte
  rr_validator_index :: byte
  rr_timestamp :: u64

definition recovery_request_serialize :: "recovery_request_message \<Rightarrow> bytes" where
  "recovery_request_serialize m = to_le_bytes (rr_timestamp m)"

section \<open>Compact payloads\<close>

definition MAX_INVOCATION_SCRIPT :: nat where "MAX_INVOCATION_SCRIPT = 1024"

record change_view_compact =
  cvc_validator_index :: byte
  cvc_original_view_number :: byte
  cvc_timestamp :: u64
  cvc_invocation_script :: bytes

definition change_view_compact_impl :: "change_view_compact serializable_impl" where
  "change_view_compact_impl = \<lparr>
     deserialize_fn =
       and_then read_byte (\<lambda>v. and_then read_byte (\<lambda>view. and_then read_uint64 (\<lambda>ts.
       and_then (read_var_bytes MAX_INVOCATION_SCRIPT) (\<lambda>inv_script.
       ok \<lparr> cvc_validator_index = v, cvc_original_view_number = view, cvc_timestamp = ts,
            cvc_invocation_script = inv_script \<rparr>)))),
     serialize_fn = (\<lambda>p.
       and_then (write_u8 (cvc_validator_index p)) (\<lambda>_.
       and_then (write_u8 (cvc_original_view_number p)) (\<lambda>_.
       and_then (write_u64 (cvc_timestamp p)) (\<lambda>_.
       write_var_bytes (cvc_invocation_script p))))),
     size_fn = (\<lambda>p. 1 + 1 + 8 + get_var_size_bytes (cvc_invocation_script p)) \<rparr>"

record preparation_compact =
  prc_validator_index :: byte
  prc_invocation_script :: bytes

definition preparation_compact_impl :: "preparation_compact serializable_impl" where
  "preparation_compact_impl = \<lparr>
     deserialize_fn =
       and_then read_byte (\<lambda>v. and_then (read_var_bytes MAX_INVOCATION_SCRIPT) (\<lambda>inv_script.
       ok \<lparr> prc_validator_index = v, prc_invocation_script = inv_script \<rparr>)),
     serialize_fn = (\<lambda>p.
       and_then (write_u8 (prc_validator_index p)) (\<lambda>_. write_var_bytes (prc_invocation_script p))),
     size_fn = (\<lambda>p. 1 + get_var_size_bytes (prc_invocation_script p)) \<rparr>"

record commit_compact =
  cmc_view_number :: byte
  cmc_validator_index :: byte
  cmc_signature :: bytes
  cmc_invocation_script :: bytes

definition commit_compact_impl :: "commit_compact serializable_impl" where
  "commit_compact_impl = \<lparr>
     deserialize_fn =
       and_then read_byte (\<lambda>view. and_then read_byte (\<lambda>v. and_then (read_bytes 64) (\<lambda>sig.
       and_then (read_var_bytes MAX_INVOCATION_SCRIPT) (\<lambda>inv_script.
       ok \<lparr> cmc_view_number = view, cmc_validator_index = v, cmc_signature = sig,
            cmc_invocation_script = inv_script \<rparr>)))),
     serialize_fn = (\<lambda>p.
       and_then (write_u8 (cmc_view_number p)) (\<lambda>_.
       and_then (write_u8 (cmc_validator_index p)) (\<lambda>_.
       if length (cmc_signature p) \<noteq> 64
       then err (invalid_data ''CommitPayloadCompact signature must be 64 bytes'')
       else and_then (write_bytes (cmc_signature p)) (\<lambda>_.
       write_var_bytes (cmc_invocation_script p))))),
     size_fn = (\<lambda>p. 1 + 1 + 64 + get_var_size_bytes (cmc_invocation_script p)) \<rparr>"

section \<open>RecoveryMessage\<close>

record recovery_message =
  rm_block_index :: u32
  rm_view_number :: byte
  rm_validator_index :: byte
  rm_change_view_messages :: "change_view_compact list"
  rm_prepare_request_message :: "prepare_request_message option"
  rm_preparation_hash :: "uint256 option"
  rm_preparation_messages :: "preparation_compact list"
  rm_commit_messages :: "commit_compact list"

definition recovery_message_new :: "u32 \<Rightarrow> byte \<Rightarrow> byte \<Rightarrow> recovery_message" where
  "recovery_message_new idx view v = \<lparr> rm_block_index = idx, rm_view_number = view,
     rm_validator_index = v, rm_change_view_messages = [], rm_prepare_request_message = None,
     rm_preparation_hash = None, rm_preparation_messages = [], rm_commit_messages = [] \<rparr>"

fun io_error_display :: "io_error \<Rightarrow> string" where
  "io_error_display Format = ''format error''"
| "io_error_display InvalidUtf8 = ''invalid utf-8 data''"
| "io_error_display (InvalidData context value) = context @ '': '' @ value"
| "io_error_display Io = []"

definition writer_error :: "io_error \<Rightarrow> consensus_error" where
  "writer_error e = SerializationError (''RecoveryMessage write failed: '' @ io_error_display e)"

definition write_preparation :: "recovery_message \<Rightarrow> (binary_writer, consensus_error, unit) run" where
  "write_preparation m =
     and_then (map_err writer_error (write_bool (rm_prepare_request_message m \<noteq> None))) (\<lambda>_.
     case rm_prepare_request_message m of
       Some req \<Rightarrow> map_err writer_error (write_bytes (consensus_message_bytes PrepareRequest
                     (prq_block_index req) (prq_validator_index req) (prq_view_number req)
                     (prepare_request_serialize req)))
     | None \<Rightarrow> (case rm_preparation_hash m of
                  Some h \<Rightarrow> map_err writer_error (write_var_bytes (uint256_to_bytes h))
                | None \<Rightarrow> map_err writer_error (writer_write_var_int 0)))"

definition write_recovery :: "recovery_message \<Rightarrow> (binary_writer, consensus_error, unit) run" where
  "write_recovery m =
     and_then (map_err writer_error (serialize_array change_view_compact_impl
                 (sort_key cvc_validator_index (rm_change_view_messages m)))) (\<lambda>_.
     and_then (write_preparation m) (\<lambda>_.
     and_then (map_err writer_error (serialize_array preparation_compact_impl
                 (sort_key prc_validator_index (rm_preparation_messages m)))) (\<lambda>_.
     map_err writer_error (serialize_array commit_compact_impl
       (sort_key cmc_validator_index (rm_commit_messages m))))))"

definition recovery_serialize :: "recovery_message \<Rightarrow> consensus_error + bytes" where
  "recovery_serialize m =
     (case write_recovery m binary_writer_new of
        (Inl e, _) \<Rightarrow> Inl e | (Inr _, w) \<Rightarrow> Inr (into_bytes w))"

definition read_preparation ::
  "(memory_reader, consensus_error, prepare_request_message option \<times> uint256 option) run" where
  "read_preparation =
     and_then (map_err (\<lambda>_. InvalidProposal ''RecoveryMessage flag'') read_boolean) (\<lambda>has_prepare_request.
     if has_prepare_request
     then and_then prepare_request_deserialize_from_reader (\<lambda>req. ok (Some req, None))
     else and_then (map_err (\<lambda>_. InvalidProposal ''RecoveryMessage PreparationHash length'')
                      (read_var_int 32)) (\<lambda>len.
       if unat len = 0 then ok (None, None)
       else if unat len = 32
       then and_then (map_err (\<lambda>_. InvalidProposal ''RecoveryMessage PreparationHash'')
                        (deserialize_fn uint256_impl)) (\<lambda>h. ok (None, Some h))
       else err (InvalidProposal ''RecoveryMessage PreparationHash length invalid'')))"

definition read_recovery ::
  "u32 \<Rightarrow> byte \<Rightarrow> byte \<Rightarrow> (memory_reader, consensus_error, recovery_message) run" where
  "read_recovery idx view v =
     and_then (map_err (\<lambda>_. InvalidProposal ''RecoveryMessage change views'')
                 (deserialize_array change_view_compact_impl 255)) (\<lambda>cvs.
     and_then read_preparation (\<lambda>(req, h).
     and_then (map_err (\<lambda>_. InvalidProposal ''RecoveryMessage preparations'')
                 (deserialize_array preparation_compact_impl 255)) (\<lambda>preps.
     and_then (map_err (\<lambda>_. InvalidProposal ''RecoveryMessage commits'')
                 (deserialize_array commit_compact_impl 255)) (\<lambda>cms.
     ok \<lparr> rm_block_index = idx, rm_view_number = view, rm_validator_index = v,
          rm_change_view_messages = cvs, rm_prepare_request_message = req,
          rm_preparation_hash = h, rm_preparation_messages = preps, rm_commit_messages = cms \<rparr>))))"

definition recovery_deserialize ::
  "bytes \<Rightarrow> u32 \<Rightarrow> byte \<Rightarrow> byte \<Rightarrow> consensus_error + recovery_message" where
  "recovery_deserialize d idx view v = fst (read_recovery idx view v (memory_reader_new d))"

fun validate_compact_from :: "byte hashset \<Rightarrow> byte list \<Rightarrow> nat \<Rightarrow> consensus_error + unit" where
  "validate_compact_from seen [] n = Inr ()"
| "validate_compact_from seen (i # is) n =
     (if unat i \<ge> n then Inl (InvalidValidatorIndex i)
      else if hs_contains seen i then Inl (DuplicateValidator i)
      else validate_compact_from (hs_insert i seen) is n)"

definition validate_compact_validators :: "byte list \<Rightarrow> nat \<Rightarrow> consensus_error + unit" where
  "validate_compact_validators indices n = validate_compact_from [] indices n"

definition recovery_validate :: "recovery_message \<Rightarrow> nat \<Rightarrow> u32 \<Rightarrow> consensus_error + unit" where
  "recovery_validate m n max_txs =
     (case validate_compact_validators (map cvc_validator_index (rm_change_view_messages m)) n of
        Inl e \<Rightarrow> Inl e
      | Inr _ \<Rightarrow>
     (case validate_compact_validators (map prc_validator_index (rm_preparation_messages m)) n of
        Inl e \<Rightarrow> Inl e
      | Inr _ \<Rightarrow>
     (case validate_compact_validators (map cmc_validator_index (rm_commit_messages m)) n of
        Inl e \<Rightarrow> Inl e
      | Inr _ \<Rightarrow>
     (case rm_prepare_request_message m of
        None \<Rightarrow> Inr ()
      | Some request \<Rightarrow>
          if unat (prq_validator_index request) \<ge> n
          then Inl (InvalidValidatorIndex (prq_validator_index request))
          else if length (prq_transaction_hashes request) > unat max_txs
          then Inl (InvalidProposal ''RecoveryMessage PrepareRequest exceeds MaxTransactionsPerBlock'')
          else if \<not> unique_from [] (prq_transaction_hashes request)
          then Inl (InvalidProposal ''RecoveryMessage PrepareRequest transaction hashes are duplicate'')
          else Inr ()))))"

section \<open>Round trips\<close>

lemma unique_from_distinct: "unique_from seen xs \<longleftrightarrow> distinct xs \<and> set seen \<inter> set xs = {}"
  by (induction xs arbitrary: seen) (auto simp: hs_defs)

lemma unique_from_Nil [simp]: "unique_from [] xs \<longleftrightarrow> distinct xs"
  by (simp add: unique_from_distinct)

lemma append_uint256_array_enc:
  "append_uint256_array hashes dst = dst @ array_enc uint256_to_bytes hashes"
proof -
  have "fold (\<lambda>h d. d @ uint256_to_bytes h) hashes d = d @ concat (map uint256_to_bytes hashes)" for d
    by (induction hashes arbitrary: d) auto
  then show ?thesis
    by (simp add: append_uint256_array_def array_enc_def write_var_int_append [of _ dst])
qed

lemma uint256_array_encoded_len_exact:
  "uint256_array_encoded_len hashes = length (append_uint256_array hashes dst) - length dst"
proof -
  have "length (concat (map uint256_to_bytes hashes)) = length hashes * 32"
    by (induction hashes) auto
  then show ?thesis
    by (simp add: append_uint256_array_enc array_enc_def uint256_array_encoded_len_def length_write_var_int)
qed

lemma parses_uint256: "parses (deserialize_fn uint256_impl) h (uint256_to_bytes h)"
  by (simp add: parses_def uint256_deserialize_append)

lemma parses_uint256_array:
  "length hashes \<le> 65535 \<Longrightarrow> parses (deserialize_array uint256_impl 65535) hashes (array_enc uint256_to_bytes hashes)"
  unfolding parses_def by (intro allI impI u256.deserialize_array_enc) auto

lemma parses_invocation:
  "length bs \<le> MAX_INVOCATION_SCRIPT \<Longrightarrow>
     parses (read_var_bytes MAX_INVOCATION_SCRIPT) bs (write_var_bytes_to bs [])"
  unfolding parses_def
  by (auto simp: read_var_bytes_append MAX_INVOCATION_SCRIPT_def get_var_size_bytes_def
      get_var_size_usize_def get_var_size_def write_var_bytes_to_def length_write_var_int)

definition prepare_request_wire :: "prepare_request_message \<Rightarrow> bool" where
  "prepare_request_wire m \<longleftrightarrow> prq_version m = 0 \<and> distinct (prq_transaction_hashes m)
     \<and> length (prq_transaction_hashes m) \<le> 65535"

lemma prepare_request_serialize_enc:
  "prepare_request_serialize m = to_le_bytes (prq_version m) @ uint256_to_bytes (prq_prev_hash m)
     @ to_le_bytes (prq_timestamp m) @ to_le_bytes (prq_nonce m)
     @ array_enc uint256_to_bytes (prq_transaction_hashes m)"
  by (simp add: prepare_request_serialize_def append_uint256_array_enc)

lemmas parses_plain_steps =
  parses_and_then [OF parses_byte, unfolded append_Cons append_Nil] parses_and_then [OF parses_u64]
  parses_and_then [OF parses_bytes] parses_last [OF parses_invocation]

lemmas parses_steps =
  parses_and_then [OF parses_map_err [OF parses_byte], unfolded append_Cons append_Nil]
  parses_and_then [OF parses_map_err [OF parses_boolean], unfolded append_Cons append_Nil]
  parses_and_then [OF parses_map_err [OF parses_u32]]
  parses_and_then [OF parses_map_err [OF parses_u64]]
  parses_and_then [OF parses_map_err [OF parses_uint256]]
  parses_last [OF parses_map_err [OF parses_uint256_array]]

lemma parses_ok_eq: "v = w \<Longrightarrow> parses (ok v) w []"
  by (simp add: parses_ok)

lemma parses_guard: "\<not> b \<Longrightarrow> parses m v bs \<Longrightarrow> parses (if b then err e else m) v bs"
  by simp

lemma parses_prepare_request_fields:
  assumes "prepare_request_wire m"
  shows "parses (read_prepare_request_fields (prq_block_index m) (prq_view_number m) (prq_validator_index m))
           m (prepare_request_serialize m)"
  using assms unfolding read_prepare_request_fields_def prepare_request_serialize_enc
  by (intro parses_steps parses_guard parses_ok_eq) (simp_all add: prepare_request_wire_def)

lemma prepare_request_roundtrip:
  assumes "prepare_request_wire m"
  shows "prepare_request_deserialize_body (prepare_request_serialize m)
           (prq_block_index m) (prq_view_number m) (prq_validator_index m) = Inr m"
proof -
  have "length (concat (map uint256_to_bytes hs)) = 32 * length hs" for hs
    by (induction hs) auto
  then have "length (prepare_request_serialize m) < 2 ^ 63"
    using assms encoded_len_cases [of "of_nat (length (prq_transaction_hashes m))"]
    by (auto simp: prepare_request_serialize_enc array_enc_def prepare_request_wire_def length_write_var_int)
  then show ?thesis
    unfolding prepare_request_deserialize_body_def
    using parses_new [OF parses_prepare_request_fields [OF assms]] by blast
qed

lemma parses_embedded_prepare_request:
  assumes "prepare_request_wire m"
  shows "parses prepare_request_deserialize_from_reader m
    (consensus_message_bytes PrepareRequest (prq_block_index m) (prq_validator_index m)
       (prq_view_number m) (prepare_request_serialize m))"
  unfolding prepare_request_deserialize_from_reader_def consensus_message_bytes_def append_Cons append_Nil
  by (intro parses_steps parses_guard parses_prepare_request_fields assms) simp

lemma parses_change_view:
  assumes "reason_carries_rejected_hashes (cv_reason m) \<Longrightarrow> length (cv_rejected_hashes m) \<le> 65535"
    and "\<not> reason_carries_rejected_hashes (cv_reason m) \<Longrightarrow> cv_rejected_hashes m = []"
  shows "parses (read_change_view (cv_block_index m) (cv_view_number m) (cv_validator_index m))
           m (change_view_serialize m)"
proof (cases "reason_carries_rejected_hashes (cv_reason m)")
  case True
  then show ?thesis
    using assms unfolding read_change_view_def change_view_serialize_def
    by (simp add: append_uint256_array_enc Let_def del: type_to_byte.simps)
      (intro parses_steps, simp, intro parses_steps parses_ok_eq, simp_all)
next
  case False
  then show ?thesis
    using assms unfolding read_change_view_def change_view_serialize_def
    by (simp add: Let_def) (intro parses_steps, simp, intro parses_last [OF parses_ok] parses_ok_eq, simp)
qed

lemma write_var_bytes_enc: "write_var_bytes bs w = (Inr (), w\<lparr>buffer := buffer w @ write_var_bytes_to bs []\<rparr>)"
  by (simp add: writer_defs write_var_bytes_to_def write_var_int_append [of _ "buffer w"])

definition change_view_compact_enc :: "change_view_compact \<Rightarrow> bytes" where
  "change_view_compact_enc p = cvc_validator_index p # cvc_original_view_number p
     # to_le_bytes (cvc_timestamp p) @ write_var_bytes_to (cvc_invocation_script p) []"

definition preparation_compact_enc :: "preparation_compact \<Rightarrow> bytes" where
  "preparation_compact_enc p = prc_validator_index p # write_var_bytes_to (prc_invocation_script p) []"

definition commit_compact_enc :: "commit_compact \<Rightarrow> bytes" where
  "commit_compact_enc p = cmc_view_number p # cmc_validator_index p # cmc_signature p
     @ write_var_bytes_to (cmc_invocation_script p) []"

abbreviation change_view_compact_wire :: "change_view_compact \<Rightarrow> bool" where
  "change_view_compact_wire p \<equiv> length (cvc_invocation_script p) \<le> MAX_INVOCATION_SCRIPT"

abbreviation preparation_compact_wire :: "preparation_compact \<Rightarrow> bool" where
  "preparation_compact_wire p \<equiv> length (prc_invocation_script p) \<le> MAX_INVOCATION_SCRIPT"

abbreviation commit_compact_wire :: "commit_compact \<Rightarrow> bool" where
  "commit_compact_wire p \<equiv> length (cmc_signature p) = 64 \<and> length (cmc_invocation_script p) \<le> MAX_INVOCATION_SCRIPT"

lemma length_write_var_bytes_to: "length (write_var_bytes_to bs []) = get_var_size_bytes bs"
  by (simp add: write_var_bytes_to_def get_var_size_bytes_def get_var_size_usize_def get_var_size_def
      length_write_var_int)

lemma deserialize_of_parses:
  "parses m v bs \<Longrightarrow> reader_wf r \<Longrightarrow> unread r = bs @ rest \<Longrightarrow> m r = (Inr v, advance (length bs) r)"
  by (simp add: parses_def)

interpretation cvc: serializable change_view_compact_impl change_view_compact_wire change_view_compact_enc
proof unfold_locales
  fix v :: change_view_compact and w r rest
  assume v: "change_view_compact_wire v"
  show "serialize_fn change_view_compact_impl v w = (Inr (), w\<lparr>buffer := buffer w @ change_view_compact_enc v\<rparr>)"
    by (simp add: change_view_compact_impl_def change_view_compact_enc_def and_then_def
        write_var_bytes_enc writer_defs)
  show "size_fn change_view_compact_impl v = length (change_view_compact_enc v)"
    by (simp add: change_view_compact_impl_def change_view_compact_enc_def length_write_var_bytes_to)
  have "parses (deserialize_fn change_view_compact_impl) v (change_view_compact_enc v)"
    using v unfolding change_view_compact_impl_def change_view_compact_enc_def serializable_impl.simps
    by (intro parses_plain_steps parses_ok_eq) simp_all
  then show "reader_wf r \<Longrightarrow> unread r = change_view_compact_enc v @ rest \<Longrightarrow>
      deserialize_fn change_view_compact_impl r = (Inr v, advance (length (change_view_compact_enc v)) r)"
    by (rule deserialize_of_parses)
qed

interpretation prc: serializable preparation_compact_impl preparation_compact_wire preparation_compact_enc
proof unfold_locales
  fix v :: preparation_compact and w r rest
  assume v: "preparation_compact_wire v"
  show "serialize_fn preparation_compact_impl v w = (Inr (), w\<lparr>buffer := buffer w @ preparation_compact_enc v\<rparr>)"
    by (simp add: preparation_compact_impl_def preparation_compact_enc_def and_then_def
        write_var_bytes_enc writer_defs)
  show "size_fn preparation_compact_impl v = length (preparation_compact_enc v)"
    by (simp add: preparation_compact_impl_def preparation_compact_enc_def length_write_var_bytes_to)
  have "parses (deserialize_fn preparation_compact_impl) v (preparation_compact_enc v)"
    using v unfolding preparation_compact_impl_def preparation_compact_enc_def serializable_impl.simps
    by (intro parses_plain_steps parses_ok_eq) simp_all
  then show "reader_wf r \<Longrightarrow> unread r = preparation_compact_enc v @ rest \<Longrightarrow>
      deserialize_fn preparation_compact_impl r = (Inr v, advance (length (preparation_compact_enc v)) r)"
    by (rule deserialize_of_parses)
qed

interpretation cmc: serializable commit_compact_impl commit_compact_wire commit_compact_enc
proof unfold_locales
  fix v :: commit_compact and w r rest
  assume v: "commit_compact_wire v"
  then show "serialize_fn commit_compact_impl v w = (Inr (), w\<lparr>buffer := buffer w @ commit_compact_enc v\<rparr>)"
    by (simp add: commit_compact_impl_def commit_compact_enc_def and_then_def
        write_var_bytes_enc writer_defs)
  show "size_fn commit_compact_impl v = length (commit_compact_enc v)"
    using v by (simp add: commit_compact_impl_def commit_compact_enc_def length_write_var_bytes_to)
  have "parses (deserialize_fn commit_compact_impl) v (commit_compact_enc v)"
    using v unfolding commit_compact_impl_def commit_compact_enc_def serializable_impl.simps
    by (intro parses_plain_steps parses_ok_eq) simp_all
  then show "reader_wf r \<Longrightarrow> unread r = commit_compact_enc v @ rest \<Longrightarrow>
      deserialize_fn commit_compact_impl r = (Inr v, advance (length (commit_compact_enc v)) r)"
    by (rule deserialize_of_parses)
qed


section \<open>Recovery messages\<close>

definition recovery_wire :: "recovery_message \<Rightarrow> bool" where
  "recovery_wire m \<longleftrightarrow>
     (\<forall>p \<in> set (rm_change_view_messages m). change_view_compact_wire p)
     \<and> (\<forall>p \<in> set (rm_preparation_messages m). preparation_compact_wire p)
     \<and> (\<forall>p \<in> set (rm_commit_messages m). commit_compact_wire p)
     \<and> length (rm_change_view_messages m) \<le> 255
     \<and> length (rm_preparation_messages m) \<le> 255 \<and> length (rm_commit_messages m) \<le> 255
     \<and> (case rm_prepare_request_message m of Some req \<Rightarrow> prepare_request_wire req | None \<Rightarrow> True)"

definition recovery_canonical :: "recovery_message \<Rightarrow> recovery_message" where
  "recovery_canonical m = m \<lparr>
     rm_change_view_messages := sort_key cvc_validator_index (rm_change_view_messages m),
     rm_preparation_hash := (if rm_prepare_request_message m = None then rm_preparation_hash m else None),
     rm_preparation_messages := sort_key prc_validator_index (rm_preparation_messages m),
     rm_commit_messages := sort_key cmc_validator_index (rm_commit_messages m) \<rparr>"

definition preparation_enc :: "recovery_message \<Rightarrow> bytes" where
  "preparation_enc m =
     (case rm_prepare_request_message m of
        Some req \<Rightarrow> 1 # consensus_message_bytes PrepareRequest (prq_block_index req)
                     (prq_validator_index req) (prq_view_number req) (prepare_request_serialize req)
      | None \<Rightarrow> 0 # (case rm_preparation_hash m of
                        Some h \<Rightarrow> write_var_bytes_to (uint256_to_bytes h) []
                      | None \<Rightarrow> write_var_int 0 []))"

definition recovery_enc :: "recovery_message \<Rightarrow> bytes" where
  "recovery_enc m =
     array_enc change_view_compact_enc (sort_key cvc_validator_index (rm_change_view_messages m))
     @ preparation_enc m
     @ array_enc preparation_compact_enc (sort_key prc_validator_index (rm_preparation_messages m))
     @ array_enc commit_compact_enc (sort_key cmc_validator_index (rm_commit_messages m))"

lemma write_preparation_enc:
  "write_preparation m w = (Inr (), w\<lparr>buffer := buffer w @ preparation_enc m\<rparr>)"
  by (auto simp: write_preparation_def preparation_enc_def and_then_def map_err_def writer_defs
      write_var_bytes_enc write_var_int_append [of _ "buffer w @ _"] split: option.splits)

lemma recovery_serialize_enc:
  assumes "recovery_wire m"
  shows "recovery_serialize m = Inr (recovery_enc m)"
  using assms
  by (simp add: recovery_serialize_def write_recovery_def recovery_wire_def and_then_def map_err_def
      write_preparation_enc cvc.serialize_array_enc prc.serialize_array_enc cmc.serialize_array_enc
      binary_writer_new_def into_bytes_def recovery_enc_def)

lemma parses_cvc_array:
  "\<forall>p \<in> set ps. change_view_compact_wire p \<Longrightarrow> length ps \<le> 255 \<Longrightarrow>
     parses (deserialize_array change_view_compact_impl 255) ps (array_enc change_view_compact_enc ps)"
  unfolding parses_def by (intro allI impI cvc.deserialize_array_enc) auto

lemma parses_prc_array:
  "\<forall>p \<in> set ps. preparation_compact_wire p \<Longrightarrow> length ps \<le> 255 \<Longrightarrow>
     parses (deserialize_array preparation_compact_impl 255) ps (array_enc preparation_compact_enc ps)"
  unfolding parses_def by (intro allI impI prc.deserialize_array_enc) auto

lemma parses_cmc_array:
  "\<forall>p \<in> set ps. commit_compact_wire p \<Longrightarrow> length ps \<le> 255 \<Longrightarrow>
     parses (deserialize_array commit_compact_impl 255) ps (array_enc commit_compact_enc ps)"
  unfolding parses_def by (intro allI impI cmc.deserialize_array_enc) auto

lemma parses_flag_True:
  "parses (k True) v bs \<Longrightarrow> parses (and_then (map_err f read_boolean) k) v (1 # bs)"
  using parses_and_then [OF parses_map_err [OF parses_boolean [of True]], of k v bs f] by simp

lemma parses_flag_False:
  "parses (k False) v bs \<Longrightarrow> parses (and_then (map_err f read_boolean) k) v (0 # bs)"
  using parses_and_then [OF parses_map_err [OF parses_boolean [of False]], of k v bs f] by simp

lemma parses_preparation:
  assumes "recovery_wire m"
  shows "parses read_preparation (rm_prepare_request_message (recovery_canonical m),
           rm_preparation_hash (recovery_canonical m)) (preparation_enc m)"
proof -
  note var_int = parses_and_then [OF parses_map_err [OF parses_var_int]]
  show ?thesis
  proof (cases "rm_prepare_request_message m")
    case (Some req)
    then have "prepare_request_wire req" using assms by (simp add: recovery_wire_def)
    then have "parses read_preparation (Some req, None) (1 # consensus_message_bytes PrepareRequest
        (prq_block_index req) (prq_validator_index req) (prq_view_number req) (prepare_request_serialize req))"
      unfolding read_preparation_def
      by (intro parses_flag_True) (simp, intro parses_last [OF parses_embedded_prepare_request] parses_ok)
    then show ?thesis using Some by (simp add: recovery_canonical_def preparation_enc_def)
  next
    case None
    show ?thesis
    proof (cases "rm_preparation_hash m")
      case (Some h)
      have "parses read_preparation (None, Some h) (0 # write_var_int 32 [] @ uint256_to_bytes h)"
        unfolding read_preparation_def
        by (intro parses_flag_False) (simp, intro var_int, simp, simp, intro parses_last [OF parses_map_err [OF parses_uint256]] parses_ok)
      then show ?thesis
        using None Some by (simp add: recovery_canonical_def preparation_enc_def write_var_bytes_to_def)
    next
      case none: None
      have "parses read_preparation (None, None) (0 # write_var_int 0 [] @ [])"
        unfolding read_preparation_def
        by (intro parses_flag_False) (simp only: if_False, intro var_int, simp_all add: parses_ok)
      then show ?thesis
        using None none by (simp add: recovery_canonical_def preparation_enc_def)
    qed
  qed
qed

lemma parses_recovery:
  assumes "recovery_wire m"
  shows "parses (read_recovery (rm_block_index m) (rm_view_number m) (rm_validator_index m))
           (recovery_canonical m) (recovery_enc m)"
proof -
  let ?cvs = "sort_key cvc_validator_index (rm_change_view_messages m)"
  let ?prs = "sort_key prc_validator_index (rm_preparation_messages m)"
  let ?cms = "sort_key cmc_validator_index (rm_commit_messages m)"
  have w: "\<forall>p \<in> set ?cvs. change_view_compact_wire p" "\<forall>p \<in> set ?prs. preparation_compact_wire p"
      "\<forall>p \<in> set ?cms. commit_compact_wire p" "length ?cvs \<le> 255" "length ?prs \<le> 255" "length ?cms \<le> 255"
    using assms by (auto simp: recovery_wire_def)
  show ?thesis
    unfolding read_recovery_def recovery_enc_def
    using w
    by (intro parses_and_then [OF parses_map_err [OF parses_cvc_array]]
        parses_and_then [OF parses_preparation [OF assms]])
      (simp_all only: prod.case, intro parses_and_then [OF parses_map_err [OF parses_prc_array]]
        parses_last [OF parses_map_err [OF parses_cmc_array]] parses_ok_eq,
        auto simp: recovery_canonical_def)
qed

lemma length_concat_le:
  "\<forall>x \<in> set xs. length (f x) \<le> b \<Longrightarrow> length (concat (map f xs)) \<le> length xs * b"
  by (induction xs) auto

lemma length_array_enc_le:
  "\<forall>x \<in> set xs. length (f x) \<le> b \<Longrightarrow> length (array_enc f xs) \<le> 9 + length xs * b"
  using length_concat_le [of xs f b] encoded_len_cases [of "of_nat (length xs)"]
  by (auto simp: array_enc_def length_write_var_int)

lemma length_var_bytes_le: "length (write_var_bytes_to bs []) \<le> 9 + length bs"
  using encoded_len_cases [of "of_nat (length bs)"]
  by (auto simp: write_var_bytes_to_def length_write_var_int)

lemma compact_enc_lengths:
  "change_view_compact_wire p \<Longrightarrow> length (change_view_compact_enc p) \<le> 1043"
  "preparation_compact_wire q \<Longrightarrow> length (preparation_compact_enc q) \<le> 1034"
  "commit_compact_wire c \<Longrightarrow> length (commit_compact_enc c) \<le> 1099"
  using length_var_bytes_le [of "cvc_invocation_script p"] length_var_bytes_le [of "prc_invocation_script q"]
    length_var_bytes_le [of "cmc_invocation_script c"]
  by (simp_all add: change_view_compact_enc_def preparation_compact_enc_def commit_compact_enc_def
      MAX_INVOCATION_SCRIPT_def)

lemma prepare_request_length:
  assumes "prepare_request_wire req"
  shows "length (prepare_request_serialize req) \<le> 2097181"
  using length_array_enc_le [of "prq_transaction_hashes req" uint256_to_bytes 32] assms
  by (simp add: prepare_request_serialize_enc prepare_request_wire_def)

lemma preparation_enc_length:
  assumes "recovery_wire m"
  shows "length (preparation_enc m) \<le> 2097190"
proof (cases "rm_prepare_request_message m")
  case (Some req)
  then show ?thesis
    using assms prepare_request_length [of req]
    by (simp add: preparation_enc_def recovery_wire_def consensus_message_bytes_def)
next
  case None
  then show ?thesis
    using length_var_bytes_le [of "uint256_to_bytes (the (rm_preparation_hash m))"]
    by (auto simp: preparation_enc_def length_write_var_int encoded_len_def split: option.split)
qed

lemma recovery_enc_bounded:
  assumes "recovery_wire m"
  shows "length (recovery_enc m) < 2 ^ 63"
proof -
  have "length (array_enc change_view_compact_enc (sort_key cvc_validator_index (rm_change_view_messages m)))
      \<le> 9 + length (sort_key cvc_validator_index (rm_change_view_messages m)) * 1043"
    using assms by (intro length_array_enc_le) (auto simp: recovery_wire_def compact_enc_lengths)
  moreover have "length (array_enc preparation_compact_enc (sort_key prc_validator_index (rm_preparation_messages m)))
      \<le> 9 + length (sort_key prc_validator_index (rm_preparation_messages m)) * 1034"
    using assms by (intro length_array_enc_le) (auto simp: recovery_wire_def compact_enc_lengths)
  moreover have "length (array_enc commit_compact_enc (sort_key cmc_validator_index (rm_commit_messages m)))
      \<le> 9 + length (sort_key cmc_validator_index (rm_commit_messages m)) * 1099"
    using assms by (intro length_array_enc_le) (auto simp: recovery_wire_def compact_enc_lengths)
  ultimately show ?thesis
    using preparation_enc_length [OF assms] assms
    by (simp add: recovery_enc_def recovery_wire_def)
qed

lemma validate_compact_from_exact:
  "validate_compact_from seen is n = Inr () \<longleftrightarrow>
     (\<forall>i \<in> set is. unat i < n) \<and> distinct is \<and> set seen \<inter> set is = {}"
  by (induction seen "is" n rule: validate_compact_from.induct) (auto simp: hs_defs)

lemma guard_Inr [simp]:
  "(case x of Inl e \<Rightarrow> Inl e | Inr (_ :: unit) \<Rightarrow> y) = Inr z \<longleftrightarrow> x = Inr () \<and> y = Inr z"
  by (cases x) auto

lemma recovery_enc_cong:
  assumes "mset (rm_change_view_messages m) = mset (rm_change_view_messages m')"
    and "inj_on cvc_validator_index (set (rm_change_view_messages m))"
    and "mset (rm_preparation_messages m) = mset (rm_preparation_messages m')"
    and "inj_on prc_validator_index (set (rm_preparation_messages m))"
    and "mset (rm_commit_messages m) = mset (rm_commit_messages m')"
    and "inj_on cmc_validator_index (set (rm_commit_messages m))"
    and "rm_prepare_request_message m = rm_prepare_request_message m'"
    and "rm_preparation_hash m = rm_preparation_hash m'"
  shows "recovery_serialize m = recovery_serialize m'"
  using sort_key_distinct_perm [OF assms(1,2)] sort_key_distinct_perm [OF assms(3,4)]
    sort_key_distinct_perm [OF assms(5,6)] assms(7,8)
  by (simp only: recovery_serialize_def write_recovery_def write_preparation_def)

lemma type_to_from_byte: "type_from_byte b = Some t \<Longrightarrow> type_to_byte t = b"
  by (auto simp: type_from_byte_def split: if_splits)

lemma from_message_bytes_inverse:
  assumes "from_message_bytes net bs wit = Inr q"
  shows "to_message_bytes q = bs \<and> p_witness q = wit"
proof -
  have len: "7 \<le> length bs"
    using assms by (auto simp: from_message_bytes_def split: if_splits)
  then have split: "bs = bs ! 0 # take 4 (drop 1 bs) @ bs ! 5 # bs ! 6 # drop 7 bs"
    by (auto simp: numeral_eq_Suc Suc_le_length_iff)
  have "to_le_bytes (from_le_bytes (take 4 (drop 1 bs)) :: u32) = take 4 (drop 1 bs)"
    using len by (intro to_from_le_bytes) simp_all
  then show ?thesis
    using assms len split
    by (auto simp: from_message_bytes_def to_message_bytes_def consensus_message_bytes_def
        type_to_from_byte split: if_splits option.splits)
qed

lemma prepare_request_parsed:
  assumes "prepare_request_deserialize_body body idx view v = Inr req"
  shows "prq_version req = 0 \<and> distinct (prq_transaction_hashes req)
    \<and> prq_block_index req = idx \<and> prq_view_number req = view \<and> prq_validator_index req = v"
  using assms unfolding prepare_request_deserialize_body_def read_prepare_request_fields_def
  by (auto simp: and_then_def map_err_def ok_def err_def split: prod.splits sum.splits if_splits)

section \<open>Properties\<close>

text \<open>
  C13: the bytes of a recovery message determine it. Every message whose scripts are at most
  1024 bytes, whose commit signatures are 64 bytes and whose lists have at most 255 entries
  serializes, and parsing those bytes gives the message back with its three lists in
  ascending validator order and with the preparation hash dropped when the full prepare
  request is carried.
\<close>

theorem recovery_message_roundtrip:
  assumes "recovery_wire m"
  shows "\<exists>bs. recovery_serialize m = Inr bs
     \<and> recovery_deserialize bs (rm_block_index m) (rm_view_number m) (rm_validator_index m)
         = Inr (recovery_canonical m)"
  using recovery_serialize_enc [OF assms]
    parses_new [OF parses_recovery [OF assms] recovery_enc_bounded [OF assms]]
  by (simp add: recovery_deserialize_def)

theorem recovery_message_roundtrip_witness:
  "\<exists>m bs. recovery_serialize m = Inr bs \<and> length (rm_commit_messages m) = 2
     \<and> recovery_deserialize bs (rm_block_index m) (rm_view_number m) (rm_validator_index m)
         = Inr (recovery_canonical m)"
proof -
  let ?c = "\<lambda>i. \<lparr> cmc_view_number = 0, cmc_validator_index = i, cmc_signature = replicate 64 7,
     cmc_invocation_script = [1, 2] \<rparr>"
  let ?m = "(recovery_message_new 5 1 2) \<lparr> rm_commit_messages := [?c 3, ?c 1],
     rm_preparation_hash := Some uint256_zero \<rparr>"
  have "recovery_wire ?m"
    by (simp add: recovery_wire_def recovery_message_new_def MAX_INVOCATION_SCRIPT_def)
  from recovery_message_roundtrip [OF this] show ?thesis
    by (fastforce simp: recovery_message_new_def)
qed

text \<open>
  C18: the order in which the hash maps hand out entries does not reach the wire. Two recovery
  messages with the same entries in any order have the same bytes, if the message is valid, so
  that no validator occurs twice in a list. (Entries of the same validator would stay in the order
  of the input, because the sort is stable.)
\<close>

theorem recovery_bytes_order_independent:
  assumes "mset (rm_change_view_messages m) = mset (rm_change_view_messages m')"
    and "mset (rm_preparation_messages m) = mset (rm_preparation_messages m')"
    and "mset (rm_commit_messages m) = mset (rm_commit_messages m')"
    and "rm_prepare_request_message m = rm_prepare_request_message m'"
    and "rm_preparation_hash m = rm_preparation_hash m'"
    and "recovery_validate m n max_txs = Inr ()"
  shows "recovery_serialize m = recovery_serialize m'"
proof -
  have "distinct (map cvc_validator_index (rm_change_view_messages m))"
    "distinct (map prc_validator_index (rm_preparation_messages m))"
    "distinct (map cmc_validator_index (rm_commit_messages m))"
    using assms(6)
    by (simp_all add: recovery_validate_def validate_compact_validators_def validate_compact_from_exact)
  then show ?thesis
    using assms(1-5) by (intro recovery_enc_cong) (auto simp: distinct_map)
qed

theorem recovery_bytes_order_independent_witness:
  "\<exists>m m'. m \<noteq> m' \<and> recovery_serialize m = recovery_serialize m'"
proof -
  let ?c = "\<lambda>i. \<lparr> cmc_view_number = 0, cmc_validator_index = i, cmc_signature = replicate 64 7,
     cmc_invocation_script = [1, 2] \<rparr>"
  let ?m = "(recovery_message_new 5 1 2) \<lparr> rm_commit_messages := [?c 3, ?c 1] \<rparr>"
  let ?m' = "(recovery_message_new 5 1 2) \<lparr> rm_commit_messages := [?c 1, ?c 3] \<rparr>"
  have "recovery_validate ?m 4 512 = Inr ()"
    by (simp add: recovery_validate_def validate_compact_validators_def recovery_message_new_def hs_defs)
  then have "recovery_serialize ?m = recovery_serialize ?m'"
    by (rule recovery_bytes_order_independent [rotated 5]) (simp_all add: recovery_message_new_def)
  moreover have "?m \<noteq> ?m'" by (simp add: recovery_message_new_def)
  ultimately show ?thesis by blast
qed

text \<open>
  C17: a recovery message passes validation exactly when, in each of its three lists, every
  validator index is in range and none occurs twice, and an embedded prepare request names a
  validator in range and at most the configured number of pairwise different transactions.
\<close>

theorem recovery_validate_exact:
  "recovery_validate m n max_txs = Inr () \<longleftrightarrow>
     (\<forall>is \<in> {map cvc_validator_index (rm_change_view_messages m),
             map prc_validator_index (rm_preparation_messages m),
             map cmc_validator_index (rm_commit_messages m)}.
        distinct is \<and> (\<forall>i \<in> set is. unat i < n))
     \<and> (case rm_prepare_request_message m of None \<Rightarrow> True
        | Some req \<Rightarrow> unat (prq_validator_index req) < n
            \<and> length (prq_transaction_hashes req) \<le> unat max_txs
            \<and> distinct (prq_transaction_hashes req))"
  by (cases "rm_prepare_request_message m")
    (auto simp: recovery_validate_def validate_compact_validators_def validate_compact_from_exact)

theorem recovery_validate_exact_witness:
  "recovery_validate ((recovery_message_new 5 1 2) \<lparr> rm_preparation_messages :=
      [\<lparr> prc_validator_index = 1, prc_invocation_script = [] \<rparr>,
       \<lparr> prc_validator_index = 1, prc_invocation_script = [] \<rparr>] \<rparr>) 4 512 \<noteq> Inr ()"
  by (subst recovery_validate_exact) (simp add: recovery_message_new_def)

text \<open>
  C16: the message envelope is a bijection between payloads and the wire bytes it accepts, and a
  prepare request that satisfies the wire limits is read back from its own body. For a body that
  parses, the theorem states only that it carries version 0 and pairwise different transaction
  hashes: the parser ignores bytes behind the last hash, so other bytes may give the same request.
\<close>

theorem envelope_and_prepare_request_codec:
  "from_message_bytes (p_network p) (to_message_bytes p) (p_witness p) = Inr p
   \<and> (from_message_bytes net bs wit = Inr q \<longrightarrow> to_message_bytes q = bs \<and> p_witness q = wit)
   \<and> (prepare_request_wire m \<longrightarrow>
        prepare_request_deserialize_body (prepare_request_serialize m)
          (prq_block_index m) (prq_view_number m) (prq_validator_index m) = Inr m)
   \<and> (prepare_request_deserialize_body body idx view v = Inr req \<longrightarrow>
        prq_version req = 0 \<and> distinct (prq_transaction_hashes req))"
proof (intro conjI impI)
  show "from_message_bytes (p_network p) (to_message_bytes p) (p_witness p) = Inr p"
    by (simp add: from_message_bytes_def to_message_bytes_def consensus_message_bytes_def nth_append
        from_to_le_bytes)
next
  assume "prepare_request_wire m"
  then show "prepare_request_deserialize_body (prepare_request_serialize m)
          (prq_block_index m) (prq_view_number m) (prq_validator_index m) = Inr m"
    by (rule prepare_request_roundtrip)
next
  assume "from_message_bytes net bs wit = Inr q"
  then show "to_message_bytes q = bs" "p_witness q = wit"
    using from_message_bytes_inverse by blast+
next
  assume "prepare_request_deserialize_body body idx view v = Inr req"
  then show "prq_version req = 0" "distinct (prq_transaction_hashes req)"
    using prepare_request_parsed by blast+
qed

theorem envelope_and_prepare_request_codec_witness:
  "\<exists>m. length (prq_transaction_hashes m) = 2
     \<and> prepare_request_deserialize_body (prepare_request_serialize m)
          (prq_block_index m) (prq_view_number m) (prq_validator_index m) = Inr m"
proof -
  let ?m = "\<lparr> prq_block_index = 9, prq_view_number = 1, prq_validator_index = 2, prq_version = 0,
     prq_prev_hash = uint256_zero, prq_timestamp = 5, prq_nonce = 6,
     prq_transaction_hashes = [UInt256 1 0 0 0, UInt256 2 0 0 0] \<rparr>"
  have "prepare_request_wire ?m" by (simp add: prepare_request_wire_def)
  then have "prepare_request_deserialize_body (prepare_request_serialize ?m)
          (prq_block_index ?m) (prq_view_number ?m) (prq_validator_index ?m) = Inr ?m"
    using envelope_and_prepare_request_codec by blast
  then show ?thesis by (intro exI [of _ ?m]) simp
qed


end
