(* ===== verification/Dbft_Service.thy ===== *)
theory Dbft_Service
  imports Dbft_Messages
begin

text \<open>
  \<^verbatim>\<open>neo-consensus/src/service\<close>: the dBFT state machine. A method with \<^verbatim>\<open>&mut self\<close> that returns
  \<^verbatim>\<open>ConsensusResult\<close> is a function from the service to a result and the service after it; an
  error keeps the changes made before it, as in the source. What the process gets from outside
  (signing keys and signers, the clock, random numbers, the event channel, the file system,
  bincode, the lru crate, hash-map iteration order) are the fields of the record \<open>env\<close>; the
  ones that may answer differently each time take the number of the call.
\<close>

section \<open>Events, environment and service state\<close>

record block_data =
  bd_block_index :: u32
  bd_version :: u32
  bd_prev_hash :: uint256
  bd_timestamp :: u64
  bd_nonce :: u64
  bd_primary_index :: byte
  bd_transaction_hashes :: "uint256 list"
  bd_signatures :: "(byte \<times> bytes) list"
  bd_validator_pubkeys :: "ec_point list"
  bd_required_signatures :: nat
  bd_next_consensus :: uint160

datatype consensus_event =
    BlockCommitted u32 uint256 block_data
  | ViewChanged u32 byte byte
  | BroadcastMessage consensus_payload
  | RequestTransactions u32 nat "uint256 list"
  | RequestProposalTransactions u32 "uint256 list"

record env =
  cry :: crypto
  software_sign :: "bytes \<Rightarrow> bytes \<Rightarrow> string + bytes"
  external_sign :: "nat \<Rightarrow> bytes \<Rightarrow> uint160 \<Rightarrow> consensus_error + bytes"
  clock :: "nat \<Rightarrow> u64"
  os_rng :: "nat \<Rightarrow> u64"
  channel_ok :: "nat \<Rightarrow> bool"
  fs_write_ok :: "nat \<Rightarrow> bool"
  fs_rename_ok :: "nat \<Rightarrow> bool"
  fs_read_ok :: "nat \<Rightarrow> bool"
  bincode_ser :: "persisted_state \<Rightarrow> bytes option"
  bincode_de :: "bytes \<Rightarrow> persisted_state option"
  lru_insert :: lru_put
  map_order :: "(uint256 \<times> nat) list \<Rightarrow> (uint256 \<times> nat) list"

text \<open>
  The last four fields are the model's: \<open>outbox\<close> is what the event channel accepted, each
  event with the context and the files at the moment it was sent; \<open>disk\<close> is the content of the
  files by path; \<open>signed_blocks\<close> lists the block hashes the service signed, with the height and the view;
  \<open>calls\<close> numbers the calls to the environment. The code reads none of them, except the disk
  when it resumes.
\<close>

type_synonym file_system = "string \<Rightarrow> bytes option"

record consensus_service =
  ctx :: consensus_context
  network :: u32
  private_key :: bytes
  signer :: bool
  max_transactions_per_block :: u32
  running :: bool
  state_path :: "string option"
  outbox :: "(consensus_event \<times> consensus_context \<times> file_system) list"
  disk :: file_system
  signed_blocks :: "(u32 \<times> byte \<times> uint256) list"
  calls :: nat

type_synonym 'a svc = "(consensus_service, consensus_error, 'a) run"

definition lift_ctx :: "(consensus_context, consensus_error, 'a) run \<Rightarrow> 'a svc" where
  "lift_ctx m s = (case m (ctx s) of (r, c) \<Rightarrow> (r, s \<lparr> ctx := c \<rparr>))"

definition modify_ctx :: "(consensus_context \<Rightarrow> consensus_context) \<Rightarrow> unit svc" where
  "modify_ctx f s = (Inr (), s \<lparr> ctx := f (ctx s) \<rparr>)"

definition from_result :: "consensus_error + 'a \<Rightarrow> 'a svc" where
  "from_result r s = (r, s)"

definition set_running :: "bool \<Rightarrow> unit svc" where
  "set_running b s = (Inr (), s \<lparr> running := b \<rparr>)"

definition next_call :: "consensus_service \<Rightarrow> consensus_service" where
  "next_call s = s \<lparr> calls := Suc (calls s) \<rparr>"

definition DEFAULT_MAX_TRANSACTIONS_PER_BLOCK :: u32 where
  "DEFAULT_MAX_TRANSACTIONS_PER_BLOCK = 512"

definition with_context_and_signer ::
  "u32 \<Rightarrow> consensus_context \<Rightarrow> bytes \<Rightarrow> bool \<Rightarrow> consensus_service" where
  "with_context_and_signer net c key has_signer = \<lparr>
     ctx = c, network = net, private_key = key, signer = has_signer,
     max_transactions_per_block = DEFAULT_MAX_TRANSACTIONS_PER_BLOCK, running = False,
     state_path = None, outbox = [], disk = (\<lambda>_. None), signed_blocks = [], calls = 0 \<rparr>"

definition new_with_signer ::
  "u32 \<Rightarrow> validator_info list \<Rightarrow> byte option \<Rightarrow> bytes \<Rightarrow> bool \<Rightarrow> consensus_service" where
  "new_with_signer net vs my key has_signer =
     with_context_and_signer net (context_new 0 vs my None) key has_signer"

section \<open>Accessors\<close>

definition svc_my_index :: "byte svc" where
  "svc_my_index s = (case my_index (ctx s) of Some i \<Rightarrow> (Inr i, s) | None \<Rightarrow> (Inl NotValidator, s))"

definition update_validators :: "validator_info list \<Rightarrow> byte option \<Rightarrow> unit svc" where
  "update_validators vs my = modify_ctx (\<lambda>c. c \<lparr> validators := vs, my_index := my \<rparr>)"

definition set_expected_block_time :: "u64 \<Rightarrow> unit svc" where
  "set_expected_block_time t = modify_ctx (\<lambda>c. c \<lparr> expected_block_time := t \<rparr>)"

definition set_max_transactions_per_block :: "u32 \<Rightarrow> unit svc" where
  "set_max_transactions_per_block n s = (Inr (), s \<lparr> max_transactions_per_block := n \<rparr>)"

definition svc_set_max_block_policy :: "u32 \<Rightarrow> int \<Rightarrow> unit svc" where
  "svc_set_max_block_policy max_size max_fee = modify_ctx (set_max_block_policy max_size max_fee)"

definition svc_record_transaction_metrics :: "uint256 \<Rightarrow> nat \<Rightarrow> int \<Rightarrow> unit svc" where
  "svc_record_transaction_metrics h sz fee =
     modify_ctx (record_transaction_metrics h \<lparr> tx_size = sz, tx_system_fee = fee \<rparr>)"

definition set_private_key :: "bytes \<Rightarrow> unit svc" where
  "set_private_key key s = (Inr (), s \<lparr> private_key := key \<rparr>)"

definition set_signer :: "bool \<Rightarrow> unit svc" where
  "set_signer b s = (Inr (), s \<lparr> signer := b \<rparr>)"

definition set_state_path :: "string option \<Rightarrow> unit svc" where
  "set_state_path p s = (Inr (), s \<lparr> state_path := p \<rparr>)"

text \<open>
  \<^verbatim>\<open>ConsensusContext::save\<close>: encode, write a temporary file, rename it over the target. The
  temporary file is not represented: a failed write or rename leaves the target as it was.
\<close>

definition save_to :: "env \<Rightarrow> string \<Rightarrow> unit svc" where
  "save_to W path s =
     (case context_to_bytes (bincode_ser W) (ctx s) of
        Inl e \<Rightarrow> (Inl e, s)
      | Inr encoded \<Rightarrow>
          if \<not> fs_write_ok W (calls s) then (Inl IoError, next_call s)
          else if \<not> fs_rename_ok W (calls s) then (Inl IoError, next_call s)
          else (Inr (), next_call (s \<lparr> disk := (disk s)(path := Some encoded) \<rparr>)))"

definition save_context_if_configured :: "env \<Rightarrow> unit svc" where
  "save_context_if_configured W s =
     (case state_path s of Some path \<Rightarrow> save_to W path s | None \<Rightarrow> (Inr (), s))"

section \<open>Time, events and signatures\<close>

definition current_timestamp :: "env \<Rightarrow> u64 svc" where
  "current_timestamp W s = (Inr (clock W (calls s)), next_call s)"

definition prepare_request_timestamp :: "u64 \<Rightarrow> u64 \<Rightarrow> u64" where
  "prepare_request_timestamp now_ms previous = max now_ms (saturating_add previous 1)"

definition generate_nonce :: "env \<Rightarrow> u64 svc" where
  "generate_nonce W s = (Inr (os_rng W (calls s)), next_call s)"

definition send_event :: "env \<Rightarrow> consensus_event \<Rightarrow> unit svc" where
  "send_event W e s =
     (if channel_ok W (calls s) then (Inr (), next_call (s \<lparr> outbox := outbox s @ [(e, ctx s, disk s)] \<rparr>))
      else (Inl ChannelSendError, next_call s))"

definition broadcast :: "env \<Rightarrow> consensus_payload \<Rightarrow> unit svc" where
  "broadcast W p = send_event W (BroadcastMessage p)"

definition invocation_script_from_signature :: "bytes \<Rightarrow> bytes" where
  "invocation_script_from_signature signature = invocation_from_signature signature []"

definition get_validator :: "consensus_context \<Rightarrow> byte \<Rightarrow> validator_info option" where
  "get_validator c i =
     (if unat i < length (validators c) then Some (validators c ! unat i) else None)"

definition my_script_hash :: "uint160 svc" where
  "my_script_hash = and_then svc_my_index (\<lambda>i s.
     case get_validator (ctx s) i of
       Some v \<Rightarrow> (Inr (script_hash v), s) | None \<Rightarrow> (Inl (InvalidValidatorIndex i), s))"

definition sign :: "env \<Rightarrow> bytes \<Rightarrow> bytes svc" where
  "sign W d = (\<lambda>s.
     if signer s then
       and_then my_script_hash (\<lambda>h.
       and_then (\<lambda>s. (external_sign W (calls s) d h, next_call s)) (\<lambda>signature.
       if length signature \<noteq> 64 then err (InvalidSignatureLength 64 (length signature))
       else ok signature)) s
     else if length (private_key s) \<noteq> 32 then (Inl (StateError ''Consensus signing key not available''), s)
     else case software_sign W (private_key s) d of
       Inr sig \<Rightarrow> (Inr sig, s)
     | Inl e \<Rightarrow> (Inl (StateError (''ECDSA signing failed: '' @ e)), s))"

definition block_sign_data :: "consensus_service \<Rightarrow> uint256 \<Rightarrow> bytes" where
  "block_sign_data s h = to_le_bytes (network s) @ uint256_to_bytes h"

definition sign_block_hash :: "env \<Rightarrow> uint256 \<Rightarrow> bytes svc" where
  "sign_block_hash W h = (\<lambda>s.
     and_then (sign W (to_le_bytes (network s) @ uint256_to_bytes h)) (\<lambda>signature s.
       (Inr signature, s \<lparr> signed_blocks := signed_blocks s @ [(block_index (ctx s), view_number (ctx s), h)] \<rparr>)) s)"

definition verify_signature :: "env \<Rightarrow> consensus_service \<Rightarrow> bytes \<Rightarrow> bytes \<Rightarrow> byte \<Rightarrow> bool" where
  "verify_signature W s d signature v =
     (case get_validator (ctx s) v of
        None \<Rightarrow> False
      | Some val \<Rightarrow>
          if length signature \<noteq> 64 then False
          else p256_verify (cry W) (point_data (public_key val)) d signature)"

section \<open>Payload hashes\<close>

definition dbft_sender :: "consensus_service \<Rightarrow> byte \<Rightarrow> consensus_error + uint160" where
  "dbft_sender s v =
     (case get_validator (ctx s) v of
        Some val \<Rightarrow> Inr (script_hash val) | None \<Rightarrow> Inl (InvalidValidatorIndex v))"

definition write_extensible :: "consensus_payload \<Rightarrow> uint160 \<Rightarrow> (binary_writer, consensus_error, unit) run" where
  "write_extensible p sender =
     (let io = (\<lambda>e. StateError (io_error_display e)) in
      and_then (map_err io (write_var_string [0x64, 0x42, 0x46, 0x54])) (\<lambda>_.
      and_then (map_err io (write_u32 0)) (\<lambda>_.
      and_then (map_err io (write_u32 (p_block_index p))) (\<lambda>_.
      and_then (map_err io (write_bytes (uint160_to_bytes sender))) (\<lambda>_.
      map_err io (write_var_bytes (to_message_bytes p)))))))"

definition dbft_unsigned_extensible_bytes :: "consensus_service \<Rightarrow> consensus_payload \<Rightarrow> consensus_error + bytes" where
  "dbft_unsigned_extensible_bytes s p =
     (case dbft_sender s (p_validator_index p) of
        Inl e \<Rightarrow> Inl e
      | Inr sender \<Rightarrow>
          (case write_extensible p sender binary_writer_new of
             (Inl e, _) \<Rightarrow> Inl e | (Inr _, w) \<Rightarrow> Inr (into_bytes w)))"

definition dbft_payload_hash :: "env \<Rightarrow> consensus_service \<Rightarrow> consensus_payload \<Rightarrow> consensus_error + uint256" where
  "dbft_payload_hash W s p =
     (case dbft_unsigned_extensible_bytes s p of
        Inl e \<Rightarrow> Inl e
      | Inr bs \<Rightarrow>
          (case uint256_from_bytes (sha256_fn (cry W) bs) of
             Some h \<Rightarrow> Inr h | None \<Rightarrow> Inl (StateError ''Failed to compute dBFT payload hash'')))"

definition dbft_sign_data :: "env \<Rightarrow> consensus_service \<Rightarrow> consensus_payload \<Rightarrow> consensus_error + bytes" where
  "dbft_sign_data W s p =
     (case dbft_payload_hash W s p of
        Inl e \<Rightarrow> Inl e | Inr h \<Rightarrow> Inr (to_le_bytes (network s) @ uint256_to_bytes h))"

definition create_payload :: "env \<Rightarrow> consensus_message_type \<Rightarrow> bytes \<Rightarrow> consensus_payload svc" where
  "create_payload W ty d =
     and_then svc_my_index (\<lambda>i s.
       let p = payload_new (network s) (block_index (ctx s)) i (view_number (ctx s)) ty d in
       case dbft_sign_data W s p of
         Inr sign_data \<Rightarrow>
           (case sign W sign_data s of
              (Inr signature, s') \<Rightarrow> (Inr (set_witness signature p), s')
            | (Inl _, s') \<Rightarrow> (Inr p, s'))
       | Inl _ \<Rightarrow> (Inr p, s))"

text \<open>
  The witness check every handler starts with: a missing witness or a signature that does not
  verify for the claimed sender stops the handler.
\<close>

definition check_witness :: "env \<Rightarrow> consensus_payload \<Rightarrow> string \<Rightarrow> string \<Rightarrow> unit svc" where
  "check_witness W p missing invalid = (\<lambda>s.
     if p_witness p = [] then (Inl (SignatureVerificationFailed missing), s)
     else and_then (from_result (dbft_sign_data W s p)) (\<lambda>sign_data s.
       if \<not> verify_signature W s sign_data (p_witness p) (p_validator_index p)
       then (Inl (SignatureVerificationFailed invalid), s)
       else (Inr (), s)) s)"

section \<open>Block fields\<close>

definition compute_merkle_root :: "env \<Rightarrow> uint256 list \<Rightarrow> uint256" where
  "compute_merkle_root W hashes =
     (case compute_root (cry W) hashes of Some r \<Rightarrow> r | None \<Rightarrow> uint256_zero)"

definition multisig_verification_script :: "env \<Rightarrow> ec_point list \<Rightarrow> bytes" where
  "multisig_verification_script W keys =
     (let m = bft_threshold (length keys) in
      case multi_sig_redeem_script_from_points (cry W) m keys of
        Inr sc \<Rightarrow> sc
      | Inl _ \<Rightarrow> unchecked_multisig_verification_script (cry W) m keys)"

definition compute_next_consensus_address :: "env \<Rightarrow> validator_info list \<Rightarrow> uint160" where
  "compute_next_consensus_address W vs =
     (if vs = [] then uint160_zero
      else from_script (cry W) (multisig_verification_script W (map public_key vs)))"

definition compute_header_hash ::
  "env \<Rightarrow> u32 \<Rightarrow> uint256 \<Rightarrow> uint256 \<Rightarrow> u64 \<Rightarrow> u64 \<Rightarrow> u32 \<Rightarrow> byte \<Rightarrow> uint160 \<Rightarrow> uint256" where
  "compute_header_hash W ver prev merkle ts no idx primary next =
     uint256_from_array (sha256_fn (cry W)
       (to_le_bytes ver @ uint256_to_bytes prev @ uint256_to_bytes merkle @ to_le_bytes ts
        @ to_le_bytes no @ to_le_bytes idx @ [primary] @ uint160_to_bytes next))"

definition context_header_hash :: "env \<Rightarrow> consensus_context \<Rightarrow> uint256" where
  "context_header_hash W c =
     compute_header_hash W (version c) (prev_hash c) (compute_merkle_root W (proposed_tx_hashes c))
       (proposed_timestamp c) (nonce c) (block_index c) (primary_index c) (next_consensus c)"

definition unwrap_hash :: "uint256 option \<Rightarrow> uint256" where
  "unwrap_hash h = (case h of Some x \<Rightarrow> x | None \<Rightarrow> uint256_zero)"

end
