(* ===== verification/Dbft_Handlers.thy ===== *)
theory Dbft_Handlers
  imports Dbft_Service
begin

text \<open>
  The handlers of \<^verbatim>\<open>service/handlers\<close>, the proposal flow of \<^verbatim>\<open>service/proposal.rs\<close>, the lifecycle
  of \<^verbatim>\<open>service/lifecycle.rs\<close> and block assembly of \<^verbatim>\<open>service/block_data.rs\<close>, whole and in the
  order the code calls them.
\<close>

section \<open>Commits\<close>

definition cache_commit_invocation :: "consensus_payload \<Rightarrow> consensus_context \<Rightarrow> consensus_context" where
  "cache_commit_invocation p c =
     (if p_witness p \<noteq> []
      then c \<lparr> commit_invocations := hm_insert (p_validator_index p)
                 (invocation_script_from_signature (p_witness p)) (commit_invocations c) \<rparr>
      else c)"

definition remove_commit :: "byte \<Rightarrow> consensus_context \<Rightarrow> consensus_context" where
  "remove_commit v c = c \<lparr> commits := hm_remove v (commits c),
     commit_view_numbers := hm_remove v (commit_view_numbers c),
     commit_invocations := hm_remove v (commit_invocations c) \<rparr>"

definition revalidate_current_view_commits :: "env \<Rightarrow> consensus_service \<Rightarrow> consensus_service" where
  "revalidate_current_view_commits W s =
     (case proposed_block_hash (ctx s) of
        None \<Rightarrow> s
      | Some block_hash \<Rightarrow>
          let sign_data = block_sign_data s block_hash;
              current_view = view_number (ctx s);
              vs = filter (\<lambda>i. hm_get (commit_view_numbers (ctx s)) i = Some current_view)
                     (hm_keys (commits (ctx s)))
          in fold (\<lambda>v s.
               if (case hm_get (commits (ctx s)) v of
                     Some signature \<Rightarrow> verify_signature W s sign_data signature v | None \<Rightarrow> False)
               then s else s \<lparr> ctx := remove_commit v (ctx s) \<rparr>) vs s)"

definition prepare_block_data :: "block_data svc" where
  "prepare_block_data = (\<lambda>s.
     let c = ctx s; m = quorum_m c;
         signatures = sort_key fst (collect_commit_signatures c)
     in if length signatures < m then (Inl (InsufficientSignatures m (length signatures)), s)
        else (Inr \<lparr> bd_block_index = block_index c, bd_version = version c,
               bd_prev_hash = prev_hash c, bd_timestamp = proposed_timestamp c,
               bd_nonce = nonce c, bd_primary_index = primary_index c,
               bd_transaction_hashes = proposed_tx_hashes c, bd_signatures = signatures,
               bd_validator_pubkeys = map public_key (validators c),
               bd_required_signatures = m, bd_next_consensus = next_consensus c \<rparr>, s))"

definition check_commits :: "env \<Rightarrow> unit svc" where
  "check_commits W = (\<lambda>s.
     if \<not> has_enough_commits (ctx s) then ok () s
     else if has_missing_proposed_transactions (ctx s) then ok () s
     else if round_state (ctx s) = Committed then ok () s
     else and_then (modify_ctx (\<lambda>c. c \<lparr> round_state := Committed \<rparr>)) (\<lambda>_.
          and_then prepare_block_data (\<lambda>data.
          and_then (\<lambda>s. send_event W (BlockCommitted (block_index (ctx s))
                      (unwrap_hash (proposed_block_hash (ctx s))) data) s) (\<lambda>_.
          set_running False))) s)"

definition on_commit :: "env \<Rightarrow> consensus_payload \<Rightarrow> unit svc" where
  "on_commit W p = (\<lambda>s.
     if length (p_data p) < 64 then (Inl (InvalidSignatureLength 64 (length (p_data p))), s)
     else let commit_signature = take 64 (p_data p);
              record_commit = and_then
                (lift_ctx (add_commit (p_validator_index p) (p_view_number p) commit_signature))
                (\<lambda>_. modify_ctx (cache_commit_invocation p))
     in and_then (check_witness W p ''Commit missing witness'' ''Commit witness signature invalid'') (\<lambda>_ s.
       if hm_contains (commits (ctx s)) (p_validator_index p)
       then (Inl (AlreadyReceived (p_validator_index p)), s)
       else if p_view_number p \<noteq> view_number (ctx s) then record_commit s
       else case proposed_block_hash (ctx s) of
         None \<Rightarrow> record_commit s
       | Some block_hash \<Rightarrow>
           if \<not> verify_signature W s (block_sign_data s block_hash) commit_signature (p_validator_index p)
           then (Inl (SignatureVerificationFailed ''Commit signature invalid''), s)
           else and_then record_commit (\<lambda>_.
                and_then (modify_ctx (\<lambda>c. if p_view_number p = view_number c
                                          then extend_timer_by_factor 4 c else c)) (\<lambda>_.
                check_commits W)) s) s)"

section \<open>Recovery messages\<close>

definition change_view_compacts :: "consensus_context \<Rightarrow> change_view_compact list" where
  "change_view_compacts c =
     map (\<lambda>(v, (new_view, reason)). \<lparr>
            cvc_validator_index = v,
            cvc_original_view_number = saturating_sub new_view 1,
            cvc_timestamp = (case hm_get (last_change_view_timestamps c) v of Some t \<Rightarrow> t | None \<Rightarrow> 0),
            cvc_invocation_script =
              (case hm_get (change_view_invocations c) v of Some i \<Rightarrow> i | None \<Rightarrow> []) \<rparr>)
         (filter (\<lambda>(v, (new_view, reason)). \<not> new_view < view_number c) (change_views c))"

definition count_hashes :: "uint256 list \<Rightarrow> (uint256, nat) hashmap" where
  "count_hashes hs =
     fold (\<lambda>h m. hm_insert h ((case hm_get m h of Some n \<Rightarrow> n | None \<Rightarrow> 0) + 1) m) hs []"

text \<open>\<^verbatim>\<open>Iterator::max_by_key\<close>: the last of the maximal elements.\<close>

definition max_by_count :: "(uint256 \<times> nat) list \<Rightarrow> (uint256 \<times> nat) option" where
  "max_by_count xs =
     fold (\<lambda>x acc. case acc of None \<Rightarrow> Some x
                   | Some y \<Rightarrow> if snd x \<ge> snd y then Some x else Some y) xs None"

definition own_commit_recorded :: "consensus_context \<Rightarrow> bool" where
  "own_commit_recorded c =
     (case my_index c of Some i \<Rightarrow> hm_contains (commits c) i | None \<Rightarrow> False)"

definition commit_compacts :: "consensus_context \<Rightarrow> commit_compact list" where
  "commit_compacts c =
     (if own_commit_recorded c
      then map (\<lambda>(v, signature). \<lparr>
             cmc_view_number = commit_view c v, cmc_validator_index = v, cmc_signature = signature,
             cmc_invocation_script =
               (case hm_get (commit_invocations c) v of Some i \<Rightarrow> i | None \<Rightarrow> []) \<rparr>) (commits c)
      else [])"

definition build_recovery_message :: "env \<Rightarrow> recovery_message svc" where
  "build_recovery_message W = and_then svc_my_index (\<lambda>my s.
     let c = ctx s;
         cvs = take (quorum_m c) (sort_key cvc_validator_index (change_view_compacts c));
         primary = primary_index c;
         include_prepare_request = prepare_request_received c
           \<and> (case prepare_request_invocation c of Some i \<Rightarrow> i \<noteq> [] | None \<Rightarrow> False);
         request = \<lparr> prq_block_index = block_index c, prq_view_number = view_number c,
           prq_validator_index = primary, prq_version = version c, prq_prev_hash = prev_hash c,
           prq_timestamp = proposed_timestamp c, prq_nonce = nonce c,
           prq_transaction_hashes = proposed_tx_hashes c \<rparr>;
         majority = map_option fst
           (max_by_count (map_order W (count_hashes (hm_values (prepare_response_hashes c)))));
         responses = map (\<lambda>(v, i). \<lparr> prc_validator_index = v, prc_invocation_script = i \<rparr>)
           (filter (\<lambda>(v, i). \<not> (v = primary \<and> include_prepare_request)) (prepare_responses c))
     in (Inr \<lparr> rm_block_index = block_index c, rm_view_number = view_number c,
           rm_validator_index = my, rm_change_view_messages = cvs,
           rm_prepare_request_message = (if include_prepare_request then Some request else None),
           rm_preparation_hash = (if include_prepare_request then None
             else case majority of Some h \<Rightarrow> Some h | None \<Rightarrow> preparation_hash c),
           rm_preparation_messages =
             (if include_prepare_request
              then (case prepare_request_invocation c of
                      Some i \<Rightarrow> [\<lparr> prc_validator_index = primary, prc_invocation_script = i \<rparr>]
                    | None \<Rightarrow> [])
              else []) @ responses,
           rm_commit_messages = commit_compacts c \<rparr>, s))"

definition recovery_responder :: "nat \<Rightarrow> nat \<Rightarrow> byte \<Rightarrow> byte \<Rightarrow> bool" where
  "recovery_responder n allowed requester my \<longleftrightarrow>
     (\<exists>offset \<in> set [1..<Suc allowed]. of_nat ((unat requester + offset) mod n) = my)"

definition should_send_recovery_response :: "byte \<Rightarrow> bool svc" where
  "should_send_recovery_response requester = and_then svc_my_index (\<lambda>my s.
     if hm_contains (commits (ctx s)) my then (Inr True, s)
     else let n = validator_count (ctx s) in
       if n = 0 then (Inr False, s)
       else (Inr (recovery_responder n (quorum_f (ctx s) + 1) requester my), s))"

definition resend_recovery_message :: "env \<Rightarrow> unit svc" where
  "resend_recovery_message W =
     and_then (build_recovery_message W) (\<lambda>recovery.
     and_then (from_result (recovery_serialize recovery)) (\<lambda>body.
     and_then (create_payload W RecoveryMessage body) (\<lambda>p.
     broadcast W p)))"

definition maybe_send_recovery_response :: "env \<Rightarrow> byte \<Rightarrow> unit svc" where
  "maybe_send_recovery_response W requester =
     and_then (should_send_recovery_response requester) (\<lambda>b.
     if \<not> b then ok () else resend_recovery_message W)"

definition on_recovery_request :: "env \<Rightarrow> consensus_payload \<Rightarrow> unit svc" where
  "on_recovery_request W p =
     and_then (check_witness W p ''RecoveryRequest missing witness'' ''RecoveryRequest signature invalid'') (\<lambda>_.
     and_then (should_send_recovery_response (p_validator_index p)) (\<lambda>b.
     if \<not> b then ok () else resend_recovery_message W))"

section \<open>View changes\<close>

definition cache_change_view_invocation :: "byte \<Rightarrow> consensus_payload \<Rightarrow> consensus_context \<Rightarrow> consensus_context" where
  "cache_change_view_invocation v p c =
     (if p_witness p \<noteq> []
      then c \<lparr> change_view_invocations := hm_insert v
                 (invocation_script_from_signature (p_witness p)) (change_view_invocations c) \<rparr>
      else c)"

definition request_recovery :: "env \<Rightarrow> unit svc" where
  "request_recovery W =
     and_then (current_timestamp W) (\<lambda>ts.
     and_then svc_my_index (\<lambda>my s.
     and_then (create_payload W RecoveryRequest (recovery_request_serialize
         \<lparr> rr_block_index = block_index (ctx s), rr_view_number = view_number (ctx s),
           rr_validator_index = my, rr_timestamp = ts \<rparr>)) (\<lambda>p.
     broadcast W p) s))"

definition broadcast_change_agreement :: "env \<Rightarrow> u64 \<Rightarrow> unit svc" where
  "broadcast_change_agreement W timestamp =
     and_then svc_my_index (\<lambda>my s.
     let new_view = saturating_add (view_number (ctx s)) 1 in
     and_then (lift_ctx (add_change_view my new_view ChangeAgreement timestamp)) (\<lambda>_ s.
     let msg = \<lparr> cv_block_index = block_index (ctx s), cv_view_number = view_number (ctx s),
                 cv_validator_index = my, cv_timestamp = timestamp, cv_reason = ChangeAgreement,
                 cv_rejected_hashes = [] \<rparr> in
     and_then (create_payload W ChangeView (change_view_serialize msg)) (\<lambda>p.
     and_then (modify_ctx (cache_change_view_invocation my p)) (\<lambda>_.
     broadcast W p)) s) s)"

definition change_view :: "env \<Rightarrow> byte \<Rightarrow> u64 \<Rightarrow> unit svc" where
  "change_view W new_view timestamp = (\<lambda>s.
     let old_view = view_number (ctx s) in
     if new_view \<le> old_view then ok () s
     else and_then
       (case my_index (ctx s) of
          Some my \<Rightarrow>
            (if (case hm_get (change_views (ctx s)) my of
                   Some (agreed_view, _) \<Rightarrow> agreed_view \<ge> new_view | None \<Rightarrow> False)
             then ok () else broadcast_change_agreement W timestamp)
        | None \<Rightarrow> ok ()) (\<lambda>_.
       and_then (modify_ctx (reset_for_new_view new_view timestamp)) (\<lambda>_ s.
       send_event W (ViewChanged (block_index (ctx s)) old_view new_view) s)) s)"

definition rejected_hashes_for_change_view :: "change_view_reason \<Rightarrow> consensus_context \<Rightarrow> uint256 list" where
  "rejected_hashes_for_change_view reason c =
     (if reason_carries_rejected_hashes reason then invalid_tx_hashes_over_f c else [])"

definition request_change_view :: "env \<Rightarrow> change_view_reason \<Rightarrow> u64 \<Rightarrow> unit svc" where
  "request_change_view W reason timestamp = (\<lambda>s.
     let new_view = view_number (ctx s) + 1 in
     and_then (modify_ctx (\<lambda>c. c \<lparr> change_view_retry_at :=
                 Some (saturating_add timestamp (change_view_retry_delay c)) \<rparr>)) (\<lambda>_ s.
     if more_than_f_nodes_committed_or_lost (ctx s) then request_recovery W s
     else and_then svc_my_index (\<lambda>my.
       and_then (lift_ctx (add_change_view my new_view reason timestamp)) (\<lambda>_ s.
       let msg = \<lparr> cv_block_index = block_index (ctx s), cv_view_number = view_number (ctx s),
                   cv_validator_index = my, cv_timestamp = timestamp, cv_reason = reason,
                   cv_rejected_hashes = rejected_hashes_for_change_view reason (ctx s) \<rparr> in
       and_then (create_payload W ChangeView (change_view_serialize msg)) (\<lambda>p.
       and_then (modify_ctx (cache_change_view_invocation my p)) (\<lambda>_.
       and_then (broadcast W p) (\<lambda>_ s.
       if has_enough_change_views new_view (ctx s) then change_view W new_view timestamp s
       else ok () s))) s)) s) s)"

definition on_change_view :: "env \<Rightarrow> consensus_payload \<Rightarrow> unit svc" where
  "on_change_view W p =
     and_then (check_witness W p ''ChangeView missing witness'' ''ChangeView signature invalid'') (\<lambda>_.
     and_then (from_result (change_view_deserialize (p_data p) (p_block_index p) (p_view_number p)
                 (p_validator_index p))) (\<lambda>msg.
     and_then (from_result (change_view_validate msg)) (\<lambda>_.
     and_then (from_result (new_view_number msg)) (\<lambda>new_view.
     and_then (if reason_carries_rejected_hashes (cv_reason msg) \<and> cv_rejected_hashes msg \<noteq> []
               then modify_ctx (record_invalid_transactions (p_validator_index p) (cv_rejected_hashes msg))
               else ok ()) (\<lambda>_ s.
     and_then (if new_view \<le> view_number (ctx s)
               then maybe_send_recovery_response W (p_validator_index p) else ok ()) (\<lambda>_ s.
     if own_commit_recorded (ctx s) then ok () s
     else if (case hm_get (change_views (ctx s)) (p_validator_index p) of
                Some (expected_view, _) \<Rightarrow> new_view \<le> expected_view | None \<Rightarrow> False) then ok () s
     else and_then (lift_ctx (add_change_view (p_validator_index p) new_view (cv_reason msg) (cv_timestamp msg))) (\<lambda>_.
       and_then (modify_ctx (cache_change_view_invocation (p_validator_index p) p)) (\<lambda>_ s.
       if has_enough_change_views new_view (ctx s) then change_view W new_view (cv_timestamp msg) s
       else ok () s)) s) s)))))"

section \<open>Preparations\<close>

definition check_prepare_responses :: "env \<Rightarrow> unit svc" where
  "check_prepare_responses W = (\<lambda>s.
     if \<not> prepare_request_received (ctx s) then ok () s
     else if \<not> has_enough_prepare_responses (ctx s) then ok () s
     else if has_missing_proposed_transactions (ctx s) then ok () s
     else if round_state (ctx s) = Committed then ok () s
     else if own_commit_recorded (ctx s) then ok () s
     else and_then (sign_block_hash W (unwrap_hash (proposed_block_hash (ctx s)))) (\<lambda>signature.
       and_then svc_my_index (\<lambda>my s.
       let commit = \<lparr> cm_block_index = block_index (ctx s), cm_view_number = view_number (ctx s),
                      cm_validator_index = my, cm_signature = signature \<rparr> in
       and_then (create_payload W Commit (commit_serialize commit)) (\<lambda>p.
       and_then (modify_ctx (\<lambda>c. if p_witness p \<noteq> []
                   then c \<lparr> commit_invocations := hm_insert my
                            (invocation_script_from_signature (p_witness p)) (commit_invocations c) \<rparr>
                   else c)) (\<lambda>_ s.
       and_then (lift_ctx (add_commit my (view_number (ctx s)) signature)) (\<lambda>_.
       and_then (save_context_if_configured W) (\<lambda>_.
       and_then (broadcast W p) (\<lambda>_.
       check_commits W))) s)) s)) s)"

definition send_prepare_response :: "env \<Rightarrow> unit svc" where
  "send_prepare_response W = (\<lambda>s.
     if is_primary (ctx s) then ok () s
     else case my_index (ctx s) of
       None \<Rightarrow> ok () s
     | Some my \<Rightarrow>
       if hm_contains (prepare_responses (ctx s)) my then ok () s
       else if \<not> has_missing_proposed_transactions (ctx s)
               \<and> expected_block_size (cry W) (ctx s) > unat (max_block_size (ctx s))
       then and_then (current_timestamp W) (\<lambda>now. request_change_view W BlockRejectedByPolicy now) s
       else if \<not> has_missing_proposed_transactions (ctx s)
               \<and> expected_block_system_fee (ctx s) > max_block_system_fee (ctx s)
       then and_then (current_timestamp W) (\<lambda>now. request_change_view W BlockRejectedByPolicy now) s
       else and_then (modify_ctx (extend_timer_by_factor 2)) (\<lambda>_ s.
         let prep_hash = unwrap_hash (preparation_hash (ctx s));
             response = \<lparr> prs_block_index = block_index (ctx s), prs_view_number = view_number (ctx s),
                          prs_validator_index = my, prs_preparation_hash = prep_hash \<rparr> in
         and_then (create_payload W PrepareResponse (prepare_response_serialize response)) (\<lambda>p.
         and_then (broadcast W p) (\<lambda>_.
         and_then (lift_ctx (add_prepare_response my
                     (invocation_script_from_signature (p_witness p)) (Some prep_hash))) (\<lambda>_.
         check_prepare_responses W))) s) s)"

definition on_prepare_response :: "env \<Rightarrow> consensus_payload \<Rightarrow> unit svc" where
  "on_prepare_response W p = (\<lambda>s.
     if not_accepting_payloads_due_to_view_changing (ctx s) then ok () s
     else if p_validator_index p = primary_index (ctx s) then ok () s
     else if hm_contains (prepare_responses (ctx s)) (p_validator_index p)
     then (Inl (AlreadyReceived (p_validator_index p)), s)
     else and_then (check_witness W p ''PrepareResponse missing witness'' ''PrepareResponse signature invalid'') (\<lambda>_.
       and_then (from_result (prepare_response_deserialize_body (p_data p) (p_block_index p)
                   (p_view_number p) (p_validator_index p))) (\<lambda>msg s.
       and_then (case preparation_hash (ctx s) of
                   Some expected \<Rightarrow> from_result (prepare_response_validate msg expected)
                 | None \<Rightarrow> ok ()) (\<lambda>_.
       and_then (lift_ctx (add_prepare_response (p_validator_index p)
                   (invocation_script_from_signature (p_witness p)) (Some (prs_preparation_hash msg)))) (\<lambda>_.
       and_then (modify_ctx (extend_timer_by_factor 2)) (\<lambda>_.
       check_prepare_responses W))) s)) s)"

text \<open>The proposal fields a backup stores from a prepare request it accepted.\<close>

definition store_proposal :: "consensus_payload \<Rightarrow> prepare_request_message \<Rightarrow> consensus_context \<Rightarrow> consensus_context" where
  "store_proposal p req c = c \<lparr>
     prepare_request_received := True,
     prepare_request_invocation :=
       (if p_witness p = [] then None else Some (invocation_script_from_signature (p_witness p))),
     version := prq_version req, prev_hash := prq_prev_hash req,
     proposed_timestamp := prq_timestamp req, nonce := prq_nonce req,
     proposed_tx_hashes := prq_transaction_hashes req, available_tx_hashes := [] \<rparr>"

definition retain_responses_for :: "uint256 \<Rightarrow> consensus_context \<Rightarrow> consensus_context" where
  "retain_responses_for expected c = c \<lparr>
     prepare_responses :=
       hm_retain (\<lambda>i _. hm_get (prepare_response_hashes c) i = Some expected) (prepare_responses c),
     prepare_response_hashes := hm_retain (\<lambda>_ h. h = expected) (prepare_response_hashes c) \<rparr>"

definition check_proposal :: "env \<Rightarrow> prepare_request_message \<Rightarrow> unit svc" where
  "check_proposal W req = (\<lambda>s.
     if prq_version req \<noteq> version (ctx s)
     then (Inl (InvalidProposal ''PrepareRequest version does not match block context''), s)
     else if prq_prev_hash req \<noteq> prev_hash (ctx s)
     then (Inl (InvalidProposal ''PrepareRequest prev_hash does not match block context''), s)
     else if prq_timestamp req \<le> previous_block_timestamp (ctx s)
     then (Inl (InvalidProposal ''PrepareRequest timestamp must be greater than previous block timestamp''), s)
     else and_then (current_timestamp W) (\<lambda>now s.
       if prq_timestamp req > saturating_add now (saturating_mul (prepare_request_delay (ctx s)) 8)
       then (Inl (InvalidProposal ''PrepareRequest timestamp too far in the future''), s)
       else (Inr (), s)) s)"

definition on_prepare_request :: "env \<Rightarrow> consensus_payload \<Rightarrow> unit svc" where
  "on_prepare_request W p = (\<lambda>s.
     if not_accepting_payloads_due_to_view_changing (ctx s) then ok () s
     else if p_validator_index p \<noteq> primary_index (ctx s)
     then (Inl (InvalidPrimary (primary_index (ctx s)) (p_validator_index p)), s)
     else and_then (check_witness W p ''PrepareRequest missing witness'' ''PrepareRequest signature invalid'') (\<lambda>_ s.
     if prepare_request_received (ctx s) then (Inl (AlreadyReceived (p_validator_index p)), s)
     else and_then (from_result (prepare_request_deserialize_body (p_data p) (p_block_index p)
                      (p_view_number p) (p_validator_index p))) (\<lambda>req s.
     and_then (from_result (prepare_request_validate req (primary_index (ctx s))
                 (max_transactions_per_block s))) (\<lambda>_.
     and_then (check_proposal W req) (\<lambda>_.
     and_then (modify_ctx (store_proposal p req)) (\<lambda>_ s.
     and_then (from_result (dbft_payload_hash W s p)) (\<lambda>h.
     and_then (modify_ctx (\<lambda>c. retain_responses_for h (c \<lparr> preparation_hash := Some h \<rparr>))) (\<lambda>_.
     and_then (modify_ctx (\<lambda>c. c \<lparr> proposed_block_hash := Some (context_header_hash W c) \<rparr>)) (\<lambda>_.
     and_then (\<lambda>s. (Inr (), revalidate_current_view_commits W s)) (\<lambda>_.
     and_then (modify_ctx (extend_timer_by_factor 2)) (\<lambda>_ s.
     if proposed_tx_hashes (ctx s) = [] then send_prepare_response W s
     else if is_backup (ctx s)
     then send_event W (RequestProposalTransactions (block_index (ctx s)) (proposed_tx_hashes (ctx s))) s
     else ok () s))))) s))) s) s) s)"

section \<open>Applying a recovery message\<close>

definition reprocess_recovery_payload :: "env \<Rightarrow> consensus_payload \<Rightarrow> consensus_service \<Rightarrow> consensus_service" where
  "reprocess_recovery_payload W p s =
     snd ((case p_message_type p of
        ChangeView \<Rightarrow> on_change_view W p
      | PrepareRequest \<Rightarrow> on_prepare_request W p
      | PrepareResponse \<Rightarrow> on_prepare_response W p
      | Commit \<Rightarrow> on_commit W p
      | _ \<Rightarrow> ok ()) s)"

definition recovered_payload ::
  "consensus_service \<Rightarrow> u32 \<Rightarrow> byte \<Rightarrow> byte \<Rightarrow> consensus_message_type \<Rightarrow> bytes \<Rightarrow> bytes \<Rightarrow> consensus_payload" where
  "recovered_payload s idx v view ty body wit = \<lparr> p_network = network s, p_block_index = idx,
     p_validator_index = v, p_view_number = view, p_message_type = ty, p_data = body, p_witness = wit \<rparr>"

definition apply_change_view_compact :: "env \<Rightarrow> consensus_payload \<Rightarrow> change_view_compact \<Rightarrow> consensus_service \<Rightarrow> consensus_service" where
  "apply_change_view_compact W p cv s =
     (if unat (cvc_validator_index cv) \<ge> validator_count (ctx s) then s
      else case signature_from_invocation (cvc_invocation_script cv) of
        None \<Rightarrow> s
      | Some signature \<Rightarrow>
          let reason = (case hm_get (change_views (ctx s)) (cvc_validator_index cv) of
                          Some (_, r) \<Rightarrow> r | None \<Rightarrow> Timeout);
              msg = \<lparr> cv_block_index = p_block_index p, cv_view_number = cvc_original_view_number cv,
                      cv_validator_index = cvc_validator_index cv, cv_timestamp = cvc_timestamp cv,
                      cv_reason = reason, cv_rejected_hashes = [] \<rparr>
          in reprocess_recovery_payload W
               (recovered_payload s (p_block_index p) (cvc_validator_index cv) (cvc_original_view_number cv)
                  ChangeView (change_view_serialize msg) signature) s)"

definition apply_prepare_request :: "env \<Rightarrow> recovery_message \<Rightarrow> consensus_service \<Rightarrow> consensus_service" where
  "apply_prepare_request W recovery s =
     (if prepare_request_received (ctx s) then s
      else case rm_prepare_request_message recovery of
        None \<Rightarrow> s
      | Some prep_req \<Rightarrow>
          (case find (\<lambda>q. prc_validator_index q = primary_index (ctx s)) (rm_preparation_messages recovery) of
             None \<Rightarrow> s
           | Some primary_prep \<Rightarrow>
               (case signature_from_invocation (prc_invocation_script primary_prep) of
                  None \<Rightarrow> s
                | Some signature \<Rightarrow> reprocess_recovery_payload W
                    (recovered_payload s (prq_block_index prep_req) (prq_validator_index prep_req)
                       (prq_view_number prep_req) PrepareRequest (prepare_request_serialize prep_req)
                       signature) s)))"

definition apply_preparation_compact ::
  "env \<Rightarrow> consensus_payload \<Rightarrow> byte \<Rightarrow> uint256 \<Rightarrow> preparation_compact \<Rightarrow> consensus_service \<Rightarrow> consensus_service" where
  "apply_preparation_compact W p primary prep_hash prep s =
     (if unat (prc_validator_index prep) \<ge> validator_count (ctx s) then s
      else if prc_validator_index prep = primary then s
      else case signature_from_invocation (prc_invocation_script prep) of
        None \<Rightarrow> s
      | Some signature \<Rightarrow>
          reprocess_recovery_payload W
            (recovered_payload s (p_block_index p) (prc_validator_index prep) (p_view_number p)
               PrepareResponse (prepare_response_serialize
                 \<lparr> prs_block_index = p_block_index p, prs_view_number = p_view_number p,
                   prs_validator_index = prc_validator_index prep, prs_preparation_hash = prep_hash \<rparr>)
               signature) s)"

definition apply_commit_compact :: "env \<Rightarrow> consensus_payload \<Rightarrow> commit_compact \<Rightarrow> consensus_service \<Rightarrow> consensus_service" where
  "apply_commit_compact W p cm s =
     (if unat (cmc_validator_index cm) \<ge> validator_count (ctx s) then s
      else case signature_from_invocation (cmc_invocation_script cm) of
        None \<Rightarrow> s
      | Some signature \<Rightarrow>
          reprocess_recovery_payload W
            (recovered_payload s (p_block_index p) (cmc_validator_index cm) (cmc_view_number cm)
               Commit (commit_serialize
                 \<lparr> cm_block_index = p_block_index p, cm_view_number = cmc_view_number cm,
                   cm_validator_index = cmc_validator_index cm, cm_signature = cmc_signature cm \<rparr>)
               signature) s)"

definition apply_preparations :: "env \<Rightarrow> consensus_payload \<Rightarrow> recovery_message \<Rightarrow> consensus_service \<Rightarrow> consensus_service" where
  "apply_preparations W p recovery s =
     (let s = apply_prepare_request W recovery s;
          s = (case (preparation_hash (ctx s), rm_preparation_hash recovery) of
                 (None, Some h) \<Rightarrow> s \<lparr> ctx := (ctx s) \<lparr> preparation_hash := Some h \<rparr> \<rparr>
               | _ \<Rightarrow> s);
          primary = primary_index (ctx s);
          prep_hash = (case rm_preparation_hash recovery of
                         Some h \<Rightarrow> Some h | None \<Rightarrow> preparation_hash (ctx s))
      in case prep_hash of
           None \<Rightarrow> s
         | Some h \<Rightarrow> fold (apply_preparation_compact W p primary h) (rm_preparation_messages recovery) s)"

definition apply_recovery :: "env \<Rightarrow> consensus_payload \<Rightarrow> recovery_message \<Rightarrow> consensus_service \<Rightarrow> consensus_service" where
  "apply_recovery W p recovery s =
     (let message_view = p_view_number p; sent = own_commit_recorded (ctx s) in
      if message_view > view_number (ctx s) then
        (if sent then s
         else fold (apply_change_view_compact W p) (rm_change_view_messages recovery) s)
      else
        let s = (if message_view = view_number (ctx s) \<and> \<not> sent
                    \<and> \<not> not_accepting_payloads_due_to_view_changing (ctx s)
                 then apply_preparations W p recovery s else s)
        in if message_view \<le> view_number (ctx s)
           then fold (apply_commit_compact W p) (rm_commit_messages recovery) s else s)"

definition on_recovery_message :: "env \<Rightarrow> consensus_payload \<Rightarrow> unit svc" where
  "on_recovery_message W p =
     and_then (check_witness W p ''RecoveryMessage missing witness'' ''RecoveryMessage signature invalid'') (\<lambda>_ s.
     if p_block_index p \<noteq> block_index (ctx s) then ok () s
     else and_then (from_result (recovery_deserialize (p_data p) (p_block_index p) (p_view_number p)
                      (p_validator_index p))) (\<lambda>recovery s.
     and_then (from_result (recovery_validate recovery (validator_count (ctx s))
                 (max_transactions_per_block s))) (\<lambda>_ s.
     (Inr (), apply_recovery W p recovery s)) s) s)"

section \<open>Proposals and transactions\<close>

definition initiate_proposal :: "env \<Rightarrow> u64 \<Rightarrow> unit svc" where
  "initiate_proposal W timestamp = (\<lambda>s.
     if transaction_request_sent (ctx s) then ok () s
     else and_then (modify_ctx (\<lambda>c. c \<lparr> transaction_request_sent := True,
                      transaction_request_sent_at := Some timestamp \<rparr>)) (\<lambda>_ s.
       send_event W (RequestTransactions (block_index (ctx s)) (unat (max_transactions_per_block s))
         (invalid_tx_hashes_over_f (ctx s))) s) s)"

text \<open>The primary's branch: build, sign and broadcast a proposal.\<close>

definition propose :: "env \<Rightarrow> uint256 list \<Rightarrow> unit svc" where
  "propose W tx_hashes =
     and_then (current_timestamp W) (\<lambda>now.
     and_then (modify_ctx (\<lambda>c. c \<lparr> transaction_request_sent := True,
                 transaction_request_sent_at :=
                   (case transaction_request_sent_at c of None \<Rightarrow> Some now | Some t \<Rightarrow> Some t) \<rparr>)) (\<lambda>_ s.
     let timestamp = prepare_request_timestamp now (previous_block_timestamp (ctx s)) in
     and_then (generate_nonce W) (\<lambda>no s.
     let hashes = take (unat (max_transactions_per_block s)) tx_hashes in
     and_then (modify_ctx (\<lambda>c. (mark_available_transactions hashes
                 (c \<lparr> proposed_timestamp := timestamp, proposed_tx_hashes := hashes \<rparr>)) \<lparr> nonce := no \<rparr>)) (\<lambda>_.
     and_then svc_my_index (\<lambda>my s.
     let msg = \<lparr> prq_block_index = block_index (ctx s), prq_view_number = view_number (ctx s),
                 prq_validator_index = my, prq_version = version (ctx s),
                 prq_prev_hash = prev_hash (ctx s), prq_timestamp = timestamp, prq_nonce = no,
                 prq_transaction_hashes = hashes \<rparr> in
     and_then (create_payload W PrepareRequest (prepare_request_serialize msg)) (\<lambda>p s.
     and_then (modify_ctx (\<lambda>c. c \<lparr>
                 preparation_hash := (case dbft_payload_hash W s p of
                                        Inr h \<Rightarrow> Some h | Inl _ \<Rightarrow> preparation_hash c),
                 prepare_request_invocation :=
                   (if p_witness p = [] then None
                    else Some (invocation_script_from_signature (p_witness p))) \<rparr>)) (\<lambda>_.
     and_then (modify_ctx (\<lambda>c. c \<lparr> proposed_block_hash := Some (compute_header_hash W (version c)
                 (prev_hash c) (compute_merkle_root W (proposed_tx_hashes c)) timestamp no
                 (block_index c) (primary_index c) (next_consensus c)) \<rparr>)) (\<lambda>_.
     and_then (\<lambda>s. (Inr (), revalidate_current_view_commits W s)) (\<lambda>_.
     and_then (broadcast W p) (\<lambda>_.
     modify_ctx (\<lambda>c. c \<lparr> prepare_request_received := True \<rparr>))))) s) s)) s) s))"

definition on_transactions_received :: "env \<Rightarrow> uint256 list \<Rightarrow> unit svc" where
  "on_transactions_received W tx_hashes = (\<lambda>s.
     if \<not> running s then ok () s
     else if not_accepting_payloads_due_to_view_changing (ctx s) then ok () s
     else if is_primary (ctx s) then propose W tx_hashes s
     else if \<not> prepare_request_received (ctx s) then ok () s
     else if proposed_tx_hashes (ctx s) = [] then send_prepare_response W s
     else and_then (modify_ctx (mark_available_transactions tx_hashes)) (\<lambda>_ s.
       if (\<forall>h \<in> set (proposed_tx_hashes (ctx s)). h \<in> set tx_hashes)
       then send_prepare_response W s else ok () s) s)"

definition on_transaction :: "env \<Rightarrow> uint256 \<Rightarrow> unit svc" where
  "on_transaction W tx_hash = (\<lambda>s.
     if \<not> running s then ok () s
     else if \<not> is_backup (ctx s) \<or> \<not> prepare_request_received (ctx s) then ok () s
     else if not_accepting_payloads_due_to_view_changing (ctx s) then ok () s
     else if round_state (ctx s) = Committed then ok () s
     else if has_available_transaction tx_hash (ctx s) then ok () s
     else if \<not> is_proposed_transaction tx_hash (ctx s) then ok () s
     else case mark_transaction_available tx_hash (ctx s) of (added, c) \<Rightarrow>
       (if \<not> added then ok () (s \<lparr> ctx := c \<rparr>)
        else if \<not> has_missing_proposed_transactions c
        then and_then (send_prepare_response W) (\<lambda>_. check_prepare_responses W) (s \<lparr> ctx := c \<rparr>)
        else ok () (s \<lparr> ctx := c \<rparr>)))"

section \<open>Lifecycle\<close>

definition start_with_block_context ::
  "u32 \<Rightarrow> u64 \<Rightarrow> uint256 \<Rightarrow> u64 \<Rightarrow> uint160 \<Rightarrow> u32 \<Rightarrow> unit svc" where
  "start_with_block_context idx timestamp prev prev_timestamp next ver = (\<lambda>s.
     if my_index (ctx s) = None then (Inl NotValidator, s)
     else and_then (modify_ctx (\<lambda>c. (reset_for_new_block idx timestamp c) \<lparr> prev_hash := prev,
            previous_block_timestamp := prev_timestamp, next_consensus := next, version := ver \<rparr>)) (\<lambda>_.
          set_running True) s)"

definition start_with_previous_timestamp ::
  "env \<Rightarrow> u32 \<Rightarrow> u64 \<Rightarrow> uint256 \<Rightarrow> u64 \<Rightarrow> u32 \<Rightarrow> unit svc" where
  "start_with_previous_timestamp W idx timestamp prev prev_timestamp ver = (\<lambda>s.
     start_with_block_context idx timestamp prev prev_timestamp
       (compute_next_consensus_address W (validators (ctx s))) ver s)"

definition start :: "env \<Rightarrow> u32 \<Rightarrow> u64 \<Rightarrow> uint256 \<Rightarrow> u32 \<Rightarrow> unit svc" where
  "start W idx timestamp prev ver = start_with_previous_timestamp W idx timestamp prev 0 ver"

definition resume_with_next_consensus :: "env \<Rightarrow> u64 \<Rightarrow> uint256 \<Rightarrow> uint160 \<Rightarrow> u32 \<Rightarrow> unit svc" where
  "resume_with_next_consensus W timestamp prev next ver = (\<lambda>s.
     if my_index (ctx s) = None then (Inl NotValidator, s)
     else and_then (modify_ctx (\<lambda>c. c \<lparr> prev_hash := prev, next_consensus := next, version := ver,
            view_start_time := timestamp, round_state := (if is_primary c then Primary else Backup) \<rparr>)) (\<lambda>_.
          and_then (set_running True) (\<lambda>_.
          and_then (check_prepare_responses W) (\<lambda>_.
          check_commits W))) s)"

definition resume :: "env \<Rightarrow> u64 \<Rightarrow> uint256 \<Rightarrow> u32 \<Rightarrow> unit svc" where
  "resume W timestamp prev ver = (\<lambda>s.
     resume_with_next_consensus W timestamp prev
       (compute_next_consensus_address W (validators (ctx s))) ver s)"

definition try_load_and_resume :: "env \<Rightarrow> u32 \<Rightarrow> u64 \<Rightarrow> uint256 \<Rightarrow> uint160 \<Rightarrow> u32 \<Rightarrow> bool svc" where
  "try_load_and_resume W idx timestamp prev next ver = (\<lambda>s.
     case state_path s of
       None \<Rightarrow> ok False s
     | Some path \<Rightarrow>
       (case disk s path of
          None \<Rightarrow> ok False s
        | Some encoded \<Rightarrow>
          if \<not> fs_read_ok W (calls s) then ok False (next_call s)
          else case context_from_bytes (bincode_de W) encoded (validators (ctx s)) (my_index (ctx s)) of
            Inl _ \<Rightarrow> ok False (next_call s)
          | Inr loaded \<Rightarrow>
              if block_index loaded \<noteq> idx then ok False (next_call s)
              else and_then (modify_ctx (\<lambda>c. loaded \<lparr> expected_block_time := expected_block_time c \<rparr>)) (\<lambda>_.
                   and_then (resume_with_next_consensus W timestamp prev next ver) (\<lambda>_.
                   ok True)) (next_call s)))"

definition process_message :: "env \<Rightarrow> consensus_payload \<Rightarrow> unit svc" where
  "process_message W p = (\<lambda>s.
     if \<not> running s then ok () s
     else and_then (from_result (dbft_payload_hash W s p)) (\<lambda>msg_hash s.
       if has_seen_message msg_hash (ctx s) then ok () s
       else if p_block_index p \<noteq> block_index (ctx s) then
         (if p_block_index p > block_index (ctx s) then ok () s
          else (Inl (WrongBlock (block_index (ctx s)) (p_block_index p)), s))
       else if p_witness p = []
       then (Inl (SignatureVerificationFailed ''Consensus payload missing witness''), s)
       else if \<not> verify_signature W s (to_le_bytes (network s) @ uint256_to_bytes msg_hash)
                   (p_witness p) (p_validator_index p)
       then (Inl (SignatureVerificationFailed ''Consensus payload signature invalid''), s)
       else and_then (modify_ctx (update_last_seen_message (p_validator_index p) (p_block_index p))) (\<lambda>_ s.
         if p_message_type p \<notin> {ChangeView, RecoveryRequest, RecoveryMessage}
            \<and> p_view_number p \<noteq> view_number (ctx s) \<and> p_message_type p \<noteq> Commit
         then ok () s
         else and_then
           (case p_message_type p of
              PrepareRequest \<Rightarrow> on_prepare_request W p
            | PrepareResponse \<Rightarrow> on_prepare_response W p
            | Commit \<Rightarrow> on_commit W p
            | ChangeView \<Rightarrow> on_change_view W p
            | RecoveryRequest \<Rightarrow> on_recovery_request W p
            | RecoveryMessage \<Rightarrow> on_recovery_message W p) (\<lambda>_.
           modify_ctx (mark_message_seen (lru_insert W) msg_hash)) s) s) s)"

definition on_timer_tick :: "env \<Rightarrow> u64 \<Rightarrow> unit svc" where
  "on_timer_tick W timestamp = (\<lambda>s.
     if \<not> running s then ok () s
     else if own_commit_recorded (ctx s) then
       (if (case commit_recovery_sent_at (ctx s) of
              None \<Rightarrow> is_timed_out timestamp (ctx s)
            | Some sent_at \<Rightarrow> timestamp \<ge> saturating_add sent_at (commit_recovery_resend_delay (ctx s)))
        then and_then (resend_recovery_message W) (\<lambda>_.
             modify_ctx (\<lambda>c. c \<lparr> commit_recovery_sent_at := Some timestamp \<rparr>)) s
        else ok () s)
     else
       let c = ctx s;
           prepare_deadline = saturating_add (view_start_time c) (prepare_request_delay c);
           primary_timeout = saturating_add
             (case transaction_request_sent_at c of Some t \<Rightarrow> t | None \<Rightarrow> prepare_deadline)
             (prepare_request_follow_up_delay c);
           timeout_step = (\<lambda>s.
             if is_timed_out timestamp (ctx s) then
               (if (case change_view_retry_at (ctx s) of Some retry_at \<Rightarrow> timestamp < retry_at | None \<Rightarrow> False)
                then ok () s
                else request_change_view W
                       (if has_missing_proposed_transactions (ctx s) then TxNotFound else Timeout) timestamp s)
             else ok () s)
       in if is_primary c then
            (if \<not> prepare_request_received c then
               (if timestamp \<ge> prepare_deadline \<and> \<not> transaction_request_sent c
                then initiate_proposal W timestamp s
                else if timestamp < primary_timeout then ok () s else timeout_step s)
             else if timestamp < primary_timeout then ok () s else timeout_step s)
          else timeout_step s)"

section \<open>Block assembly\<close>

text \<open>
  \<^verbatim>\<open>BlockData::assemble_block\<close>. Headers and blocks are the field lists the constructors of
  \<^verbatim>\<open>neo-payloads\<close> take.
\<close>

record block_witness =
  w_invocation_script :: bytes
  w_verification_script :: bytes

record block_header =
  h_version :: u32
  h_prev_hash :: uint256
  h_merkle_root :: uint256
  h_timestamp :: u64
  h_nonce :: u64
  h_index :: u32
  h_primary_index :: byte
  h_next_consensus :: uint160
  h_witness :: block_witness

fun push_signatures :: "(byte, bytes) hashmap \<Rightarrow> nat \<Rightarrow> (nat \<times> ec_point) list \<Rightarrow> script_builder \<Rightarrow> nat \<Rightarrow> script_builder \<times> nat" where
  "push_signatures sigs required [] sb pushed = (sb, pushed)"
| "push_signatures sigs required ((i, k) # ks) sb pushed =
     (if pushed \<ge> required then (sb, pushed)
      else case hm_get sigs (of_nat i) of
        Some signature \<Rightarrow> push_signatures sigs required ks (emit_push signature sb) (pushed + 1)
      | None \<Rightarrow> push_signatures sigs required ks sb pushed)"

definition assemble_block :: "env \<Rightarrow> block_data \<Rightarrow> 'tx list \<Rightarrow> consensus_error + (block_header \<times> 'tx list)" where
  "assemble_block W bd transactions =
     (let sigs = fold (\<lambda>(i, sig) m. hm_insert i sig m) (bd_signatures bd) [];
          sorted_validators = sort_by (\<lambda>a b. ec_le (cry W) (snd a) (snd b))
            (enumerate 0 (bd_validator_pubkeys bd));
          (invocation, pushed) = push_signatures sigs (bd_required_signatures bd) sorted_validators [] 0
      in if pushed < bd_required_signatures bd
         then Inl (InvalidProposal (''insufficient commit signatures: have '' @ nat_display pushed
                @ '', need '' @ nat_display (bd_required_signatures bd)))
         else Inr (\<lparr> h_version = bd_version bd, h_prev_hash = bd_prev_hash bd,
                h_merkle_root = compute_merkle_root W (bd_transaction_hashes bd),
                h_timestamp = bd_timestamp bd, h_nonce = bd_nonce bd, h_index = bd_block_index bd,
                h_primary_index = bd_primary_index bd, h_next_consensus = bd_next_consensus bd,
                h_witness = \<lparr> w_invocation_script = invocation,
                  w_verification_script = multisig_verification_script W (bd_validator_pubkeys bd) \<rparr> \<rparr>,
              transactions))"

end
