(* ===== verification/Dbft_Round.thy ===== *)
theory Dbft_Round
  imports Dbft_Handlers
begin

text \<open>
  The dBFT round as an abstract protocol, and the refinement of the service to it. \<open>round_step\<close>
  is a nondeterministic transition system over the service state whose rules are the moves the
  protocol allows: note a vote, a preparation or somebody else's commit, install a proposal, move
  to a higher view, sign and publish one's own commit, finish the round. The lemmas that end
  in \<open>refines\<close> show that every handler of the service, on every branch and with every error,
  is a sequence of such moves. Invariants of the protocol are then proved rule by rule.
\<close>

section \<open>The part of the context the protocol depends on\<close>

definition same_core :: "consensus_context \<Rightarrow> consensus_context \<Rightarrow> bool" where
  "same_core c d \<longleftrightarrow>
     block_index d = block_index c \<and> view_number d = view_number c \<and> validators d = validators c
     \<and> my_index d = my_index c \<and> round_state d = round_state c \<and> version d = version c
     \<and> prev_hash d = prev_hash c \<and> previous_block_timestamp d = previous_block_timestamp c
     \<and> next_consensus d = next_consensus c \<and> proposed_block_hash d = proposed_block_hash c
     \<and> proposed_timestamp d = proposed_timestamp c \<and> proposed_tx_hashes d = proposed_tx_hashes c
     \<and> available_tx_hashes d = available_tx_hashes c \<and> nonce d = nonce c
     \<and> prepare_request_received d = prepare_request_received c
     \<and> prepare_responses d = prepare_responses c \<and> commits d = commits c
     \<and> commit_view_numbers d = commit_view_numbers c \<and> change_views d = change_views c"

lemma same_core_refl [simp, intro]: "same_core c c"
  by (simp add: same_core_def)

lemma same_core_trans [trans]: "same_core c d \<Longrightarrow> same_core d e \<Longrightarrow> same_core c e"
  by (simp add: same_core_def)

lemma same_core_extend_timer [simp]: "same_core c (extend_timer_by_factor k c)"
  by (simp add: same_core_def extend_timer_by_factor_def Let_def)

lemma same_core_derived:
  assumes "same_core c d"
  shows "validator_count d = validator_count c" "quorum_m d = quorum_m c" "quorum_f d = quorum_f c"
    "primary_index d = primary_index c" "commit_view d = commit_view c"
    "has_enough_commits d = has_enough_commits c"
    "has_enough_prepare_responses d = has_enough_prepare_responses c"
    "has_missing_proposed_transactions d = has_missing_proposed_transactions c"
    "own_commit_recorded d = own_commit_recorded c" "context_header_hash W d = context_header_hash W c"
    "get_validator d = get_validator c"
  using assms
  by (simp_all add: same_core_def validator_count_def quorum_m_def quorum_f_def primary_index_def
      commit_view_def fun_eq_iff has_enough_commits_def has_enough_prepare_responses_def
      has_missing_proposed_transactions_def own_commit_recorded_def context_header_hash_def
      get_validator_def cong: option.case_cong)

lemma own_commit_recorded_votes [simp]: "own_commit_recorded (c \<lparr> change_views := x \<rparr>) = own_commit_recorded c"
  by (simp add: own_commit_recorded_def cong: option.case_cong)

definition listed :: "consensus_context \<Rightarrow> bool" where
  "listed c = (case my_index c of Some my \<Rightarrow> unat my < validator_count c | None \<Rightarrow> False)"

section \<open>The abstract protocol\<close>

definition own_signature :: "env \<Rightarrow> consensus_service \<Rightarrow> bytes \<Rightarrow> bytes \<Rightarrow> bool" where
  "own_signature W s d sig \<longleftrightarrow>
     (if signer s then length sig = 64 \<and> (\<exists>n h. external_sign W n d h = Inr sig)
      else software_sign W (private_key s) d = Inr sig)"

fun quiet :: "consensus_event \<Rightarrow> bool" where
  "quiet (BlockCommitted _ _ _) = False"
| "quiet (BroadcastMessage p) = (p_message_type p \<noteq> Commit)"
| "quiet _ = True"

definition install :: "env \<Rightarrow> bool \<Rightarrow> u64 \<Rightarrow> u64 \<Rightarrow> uint256 list \<Rightarrow> uint256 hashset \<Rightarrow> (byte, bytes) hashmap
    \<Rightarrow> consensus_context \<Rightarrow> consensus_context" where
  "install W received ts no hs available responses c =
     (let d = c \<lparr> prepare_request_received := received, proposed_timestamp := ts, nonce := no,
                  proposed_tx_hashes := hs, available_tx_hashes := available,
                  prepare_responses := responses \<rparr>
      in d \<lparr> proposed_block_hash := Some (context_header_hash W d) \<rparr>)"

definition record_commit :: "byte \<Rightarrow> byte \<Rightarrow> bytes \<Rightarrow> consensus_context \<Rightarrow> consensus_context" where
  "record_commit i view sig c =
     c \<lparr> commits := hm_insert i sig (commits c),
         commit_view_numbers := hm_insert i view (commit_view_numbers c) \<rparr>"

text \<open>The service is not the one member of a one-member committee.\<close>

definition has_peers :: "consensus_context \<Rightarrow> bool" where
  "has_peers c \<longleftrightarrow> \<not> (validator_count c = 1 \<and> my_index c = Some 0)"

definition commit_gate :: "consensus_context \<Rightarrow> bool" where
  "commit_gate c \<longleftrightarrow> prepare_request_received c \<and> has_enough_prepare_responses c
     \<and> \<not> has_missing_proposed_transactions c \<and> round_state c \<noteq> Committed \<and> \<not> own_commit_recorded c
     \<and> has_peers c"

definition own_commit_payload :: "consensus_context \<Rightarrow> byte \<Rightarrow> bytes \<Rightarrow> consensus_payload \<Rightarrow> bool" where
  "own_commit_payload c my sig p \<longleftrightarrow> p_message_type p = Commit \<and> p_block_index p = block_index c
     \<and> p_view_number p = view_number c \<and> p_validator_index p = my \<and> p_data p = sig"

definition saved :: "env \<Rightarrow> string option \<Rightarrow> consensus_context \<Rightarrow> file_system \<Rightarrow> bool" where
  "saved W path c d =
     (case path of None \<Rightarrow> True
      | Some f \<Rightarrow> (case bincode_ser W (to_persisted c) of Some bs \<Rightarrow> d f = Some bs | None \<Rightarrow> False))"

text \<open>
  A vote that may be noted: for a view that is not behind the current one, or at least as high
  as the vote it replaces. At the last view number the own vote wraps around.
\<close>

definition fresh_vote :: "consensus_context \<Rightarrow> byte \<Rightarrow> byte \<Rightarrow> bool" where
  "fresh_vote c i v \<longleftrightarrow> view_number c = - 1 \<or> view_number c \<le> v
     \<or> (case hm_get (change_views c) i of Some (w, _) \<Rightarrow> w \<le> v | None \<Rightarrow> True)"

text \<open>
  The service's own vote is for exactly the next view. Once its own commit is recorded, this is
  the only way it may leave the view: the votes of others are then not noted any more.
\<close>

definition calls_for :: "consensus_context \<Rightarrow> byte \<Rightarrow> bool" where
  "calls_for c v \<longleftrightarrow> v = view_number c + 1
     \<and> (\<exists>my r. my_index c = Some my \<and> hm_get (change_views c) my = Some (v, r))"

text \<open>
  The moves of a round. A proposal replaces another one of the same view only at the primary, which
  does not check whether it has proposed already; the parameter \<open>once\<close> rules this out.
\<close>

inductive round_step :: "bool \<Rightarrow> env \<Rightarrow> consensus_service \<Rightarrow> consensus_service \<Rightarrow> bool" for once W where
  call: "round_step once W s (s \<lparr> calls := n \<rparr>)"
| limit: "round_step once W s (s \<lparr> max_transactions_per_block := n \<rparr>)"
| unlisted: "\<not> listed (ctx s) \<Longrightarrow> round_step once W s (s \<lparr> signed_blocks := xs, calls := n \<rparr>)"
| local: "same_core (ctx s) c \<Longrightarrow> round_step once W s (s \<lparr> ctx := c \<rparr>)"
| tell: "quiet e \<Longrightarrow> round_step once W s (s \<lparr> outbox := outbox s @ [(e, ctx s, disk s)], calls := n \<rparr>)"
| vote: "unat i < validator_count (ctx s) \<Longrightarrow> fresh_vote (ctx s) i (fst x) \<Longrightarrow>
    my_index (ctx s) = Some i \<or> \<not> own_commit_recorded (ctx s) \<Longrightarrow>
    same_core ((ctx s) \<lparr> change_views := hm_insert i x (change_views (ctx s)) \<rparr>) c \<Longrightarrow>
    round_step once W s (s \<lparr> ctx := c \<rparr>)"
| response: "unat i < validator_count (ctx s) \<Longrightarrow> i \<noteq> primary_index (ctx s) \<Longrightarrow>
    same_core ((ctx s) \<lparr> prepare_responses := hm_insert i x (prepare_responses (ctx s)) \<rparr>) c \<Longrightarrow>
    round_step once W s (s \<lparr> ctx := c \<rparr>)"
| commit: "unat i < validator_count (ctx s) \<Longrightarrow> \<not> hm_contains (commits (ctx s)) i \<Longrightarrow>
    (\<And>h. view = view_number (ctx s) \<Longrightarrow> proposed_block_hash (ctx s) = Some h \<Longrightarrow>
       verify_signature W s (block_sign_data s h) sig i) \<Longrightarrow>
    same_core (record_commit i view sig (ctx s)) c \<Longrightarrow> round_step once W s (s \<lparr> ctx := c \<rparr>)"
| new_view: "view_number (ctx s) < v \<Longrightarrow> has_enough_change_views v (ctx s) \<Longrightarrow>
    (own_commit_recorded (ctx s) \<Longrightarrow> calls_for (ctx s) v) \<Longrightarrow>
    same_core (reset_for_new_view v ts (ctx s)) c \<Longrightarrow> round_step once W s (s \<lparr> ctx := c \<rparr>)"
| propose: "(prepare_request_received (ctx s) \<Longrightarrow> is_primary (ctx s) \<and> \<not> once) \<Longrightarrow>
    distinct available \<Longrightarrow> set available \<subseteq> set hs \<Longrightarrow> length hs \<le> unat (max_transactions_per_block s) \<Longrightarrow>
    (previous_block_timestamp (ctx s) \<noteq> - 1 \<Longrightarrow> previous_block_timestamp (ctx s) < ts) \<Longrightarrow>
    same_core (install W r ts no hs available (hm_retain P (prepare_responses (ctx s))) (ctx s)) c \<Longrightarrow>
    round_step once W s (revalidate_current_view_commits W (s \<lparr> ctx := c \<rparr>))"
| received: "proposed_block_hash (ctx s) \<noteq> None \<Longrightarrow>
    same_core ((ctx s) \<lparr> prepare_request_received := True \<rparr>) c \<Longrightarrow> round_step once W s (s \<lparr> ctx := c \<rparr>)"
| available: "distinct av \<Longrightarrow> set av \<subseteq> set (proposed_tx_hashes (ctx s)) \<Longrightarrow>
    same_core ((ctx s) \<lparr> available_tx_hashes := av \<rparr>) c \<Longrightarrow> round_step once W s (s \<lparr> ctx := c \<rparr>)"
| own_commit: "commit_gate (ctx s) \<Longrightarrow> my_index (ctx s) = Some my \<Longrightarrow> unat my < validator_count (ctx s) \<Longrightarrow>
    h = unwrap_hash (proposed_block_hash (ctx s)) \<Longrightarrow> own_signature W s (block_sign_data s h) sig \<Longrightarrow>
    same_core (record_commit my (view_number (ctx s)) sig (ctx s)) c \<Longrightarrow>
    evs = [] \<or> (\<exists>p. evs = [(BroadcastMessage p, c, d)] \<and> own_commit_payload (ctx s) my sig p
                  \<and> saved W (state_path s) c d) \<Longrightarrow>
    round_step once W s (s \<lparr> ctx := c, signed_blocks := signed_blocks s @ [(block_index (ctx s), view_number (ctx s), h)],
      disk := d, outbox := outbox s @ evs, calls := n \<rparr>)"
| finish: "has_enough_commits (ctx s) \<Longrightarrow> \<not> has_missing_proposed_transactions (ctx s) \<Longrightarrow>
    round_state (ctx s) \<noteq> Committed \<Longrightarrow> proposed_block_hash (ctx s) \<noteq> None \<or> prepare_request_received (ctx s) \<Longrightarrow>
    c = (ctx s) \<lparr> round_state := Committed \<rparr> \<Longrightarrow>
    evs = [] \<or> (\<exists>data. evs = [(BlockCommitted (block_index c) (unwrap_hash (proposed_block_hash c)) data, c, disk s)]
                  \<and> fst (prepare_block_data (s \<lparr> ctx := c \<rparr>)) = Inr data) \<Longrightarrow>
    round_step once W s (s \<lparr> ctx := c, outbox := outbox s @ evs, calls := n, running := b \<rparr>)"

abbreviation rounds :: "bool \<Rightarrow> env \<Rightarrow> consensus_service \<Rightarrow> consensus_service \<Rightarrow> bool" where
  "rounds once W \<equiv> (round_step once W)\<^sup>*\<^sup>*"

lemma remove_commit_frame [simp]:
  "same_core (c \<lparr> commits := commits d, commit_view_numbers := commit_view_numbers d \<rparr>) d \<Longrightarrow>
   same_core (c \<lparr> commits := commits (remove_commit v d), commit_view_numbers := commit_view_numbers (remove_commit v d) \<rparr>)
     (remove_commit v d)"
  by (simp add: same_core_def remove_commit_def)

lemma revalidate_frame:
  "\<exists>d. revalidate_current_view_commits W s = s \<lparr> ctx := d \<rparr> \<and>
     same_core ((ctx s) \<lparr> commits := commits d, commit_view_numbers := commit_view_numbers d \<rparr>) d"
proof -
  define Q where "Q t \<longleftrightarrow> (\<exists>d. t = s \<lparr> ctx := d \<rparr> \<and>
     same_core ((ctx s) \<lparr> commits := commits d, commit_view_numbers := commit_view_numbers d \<rparr>) d)" for t
  have Q0: "Q s" by (auto simp: Q_def same_core_def intro: exI [of _ "ctx s"])
  have Q1: "Q (t \<lparr> ctx := remove_commit v (ctx t) \<rparr>)" if "Q t" for t v
    using that by (auto simp: Q_def intro!: exI [of _ "remove_commit v (ctx t)"])
  have "Q (fold (\<lambda>v t. if b v t then t else t \<lparr> ctx := remove_commit v (ctx t) \<rparr>) vs t)" if "Q t" for b vs t
    using that by (induction vs arbitrary: t) (auto intro: Q1)
  from this [OF Q0] show ?thesis
    using Q0 by (simp add: revalidate_current_view_commits_def Q_def Let_def split: option.split)
qed

definition tidy :: "consensus_service \<Rightarrow> bool" where
  "tidy s \<longleftrightarrow> hm_wf (change_views (ctx s)) \<and> distinct (available_tx_hashes (ctx s))
     \<and> set (available_tx_hashes (ctx s)) \<subseteq> set (proposed_tx_hashes (ctx s))"

lemma tidy_step: "round_step once W s t \<Longrightarrow> tidy s \<Longrightarrow> tidy t"
proof (induction rule: round_step.induct)
  case (propose s available hs ts r no P c)
  obtain d where "revalidate_current_view_commits W (s \<lparr> ctx := c \<rparr>) = s \<lparr> ctx := d \<rparr>"
    "change_views d = change_views c" "available_tx_hashes d = available_tx_hashes c"
    "proposed_tx_hashes d = proposed_tx_hashes c"
    using revalidate_frame [of W "s \<lparr> ctx := c \<rparr>"] by (auto simp: same_core_def)
  with propose show ?case by (simp add: tidy_def same_core_def install_def Let_def)
qed (auto simp: tidy_def same_core_def record_commit_def reset_for_new_view_def Let_def)

lemma tidy_rounds: "rounds once W s t \<Longrightarrow> tidy s \<Longrightarrow> tidy t"
  by (induction rule: rtranclp_induct) (auto intro: tidy_step)

definition same_round :: "consensus_service \<Rightarrow> consensus_service \<Rightarrow> bool" where
  "same_round s t \<longleftrightarrow>
     block_index (ctx t) = block_index (ctx s) \<and> validators (ctx t) = validators (ctx s)
     \<and> my_index (ctx t) = my_index (ctx s) \<and> version (ctx t) = version (ctx s)
     \<and> prev_hash (ctx t) = prev_hash (ctx s) \<and> next_consensus (ctx t) = next_consensus (ctx s)
     \<and> previous_block_timestamp (ctx t) = previous_block_timestamp (ctx s)
     \<and> network t = network s \<and> private_key t = private_key s \<and> signer t = signer s \<and> state_path t = state_path s"

lemma same_round_step: "round_step once W s t \<Longrightarrow> same_round s t \<and> view_number (ctx s) \<le> view_number (ctx t)"
proof (induction rule: round_step.induct)
  case (propose s available hs ts r no P c)
  obtain d where "revalidate_current_view_commits W (s \<lparr> ctx := c \<rparr>) = s \<lparr> ctx := d \<rparr>"
    "same_core (c \<lparr> commits := commits d, commit_view_numbers := commit_view_numbers d \<rparr>) d"
    using revalidate_frame [of W "s \<lparr> ctx := c \<rparr>"] by auto
  with propose show ?case by (simp add: same_core_def same_round_def install_def Let_def)
qed (auto simp: same_round_def same_core_def record_commit_def reset_for_new_view_def Let_def)

lemma same_round_rounds: "rounds once W s t \<Longrightarrow> same_round s t \<and> view_number (ctx s) \<le> view_number (ctx t)"
proof (induction rule: rtranclp_induct)
  case (step t u)
  then show ?case using same_round_step [OF step.hyps(2)] by (auto simp: same_round_def)
qed (simp add: same_round_def)

text \<open>
  The refinement relation. Counting the votes for a view needs the vote table to have one
  entry per validator, and the available transactions are among the proposed ones; every move
  keeps both.
\<close>

definition refines :: "bool \<Rightarrow> env \<Rightarrow> consensus_service \<Rightarrow> consensus_service \<Rightarrow> bool" where
  "refines once W s t \<longleftrightarrow> (tidy s \<longrightarrow> rounds once W s t)"

interpretation rs: step_contract "refines once W" for once W
  by unfold_locales (auto simp: refines_def intro: tidy_rounds)

section \<open>Operations that leave the round alone\<close>

lemma refines1: "round_step once W s t \<Longrightarrow> refines once W s t"
  by (auto simp: refines_def)

lemma refines_refl [simp, intro]: "refines once W s s"
  by (rule rs.contract_refl)

lemma refines_untidy: "\<not> tidy s \<Longrightarrow> refines once W s t"
  by (simp add: refines_def)

lemma refines_then: "refines once W s t \<Longrightarrow> refines once W t u \<Longrightarrow> refines once W s u"
  by (rule rs.contract_trans)

lemma ok_refines [simp, intro]: "refines once W s (snd (ok x s))"
  by (rule rs.ok_contract)

lemma modify_then:
  assumes "refines once W s (s \<lparr> ctx := f (ctx s) \<rparr>)"
    and "refines once W (s \<lparr> ctx := f (ctx s) \<rparr>) (snd (k () (s \<lparr> ctx := f (ctx s) \<rparr>)))"
  shows "refines once W s (snd (and_then (modify_ctx f) k s))"
  using assms by (auto simp: and_then_def modify_ctx_def intro: refines_then)

lemma pure_then:
  assumes "snd (m s) = s" and "\<And>x. m s = (Inr x, s) \<Longrightarrow> refines once W s (snd (k x s))"
  shows "refines once W s (snd (and_then m k s))"
  using assms by (cases "m s"; cases "fst (m s)") (auto simp: and_then_def)

lemma local_refines: "same_core (ctx s) c \<Longrightarrow> refines once W s (s \<lparr> ctx := c \<rparr>)"
  by (intro refines1 round_step.local)

lemma local_refines_ctx: "same_core c d \<Longrightarrow> refines once W (s \<lparr> ctx := c \<rparr>) (s \<lparr> ctx := d \<rparr>)"
  using local_refines [of "s \<lparr> ctx := c \<rparr>" d once W] by simp

lemma modify_refines: "same_core (ctx s) (f (ctx s)) \<Longrightarrow> refines once W s (snd (modify_ctx f s))"
  by (simp add: modify_ctx_def local_refines)

lemma modify_ctx_run [run_simps]: "modify_ctx f s = (Inr (), s \<lparr> ctx := f (ctx s) \<rparr>)"
  by (simp add: modify_ctx_def)

lemma from_result_run [run_simps]: "from_result r s = (r, s)"
  by (simp add: from_result_def)

lemma from_result_state [simp]: "snd (from_result r s) = s"
  by (simp add: from_result_def)

lemma svc_my_index_Inr: "svc_my_index s = (Inr i, t) \<longleftrightarrow> my_index (ctx s) = Some i \<and> t = s"
  by (auto simp: svc_my_index_def split: option.splits)

lemma svc_my_index_state [simp]: "snd (svc_my_index s) = s"
  by (simp add: svc_my_index_def split: option.splits)

lemma current_timestamp_run [run_simps]: "current_timestamp W s = (Inr (clock W (calls s)), s \<lparr> calls := Suc (calls s) \<rparr>)"
  by (simp add: current_timestamp_def next_call_def)

lemma generate_nonce_run [run_simps]: "generate_nonce W s = (Inr (os_rng W (calls s)), s \<lparr> calls := Suc (calls s) \<rparr>)"
  by (simp add: generate_nonce_def next_call_def)

lemma check_witness_state [simp]: "snd (check_witness W p a b s) = s"
  by (simp add: check_witness_def and_then_def from_result_def split: prod.splits sum.splits)

lemma my_script_hash_state [simp]: "snd (my_script_hash s) = s"
  by (simp add: my_script_hash_def and_then_def svc_my_index_def split: prod.splits sum.splits option.splits)

lemma sign_external:
  assumes "signer s"
  shows "sign W d s = (case fst (my_script_hash s) of
      Inl e \<Rightarrow> (Inl e, s)
    | Inr h \<Rightarrow> (case external_sign W (calls s) d h of
        Inl e \<Rightarrow> (Inl e, next_call s)
      | Inr sig \<Rightarrow> (if length sig \<noteq> 64 then Inl (InvalidSignatureLength 64 (length sig)) else Inr sig, next_call s)))"
proof -
  have "my_script_hash s = (fst (my_script_hash s), s)"
    by (metis my_script_hash_state prod.collapse)
  then show ?thesis using assms
    by (cases "fst (my_script_hash s)")
      (simp_all add: sign_def and_then_def ok_def err_def split: sum.split)
qed

lemma sign_frame: "\<exists>n. snd (sign W d s) = s \<lparr> calls := n \<rparr>"
proof (cases "signer s")
  case True
  then show ?thesis
    by (auto simp: sign_external next_call_def split: sum.split intro: exI [of _ "calls s"])
next
  case False
  then show ?thesis by (auto simp: sign_def split: sum.split intro: exI [of _ "calls s"])
qed

lemma sign_Inr:
  assumes "sign W d s = (Inr sig, t)"
  shows "own_signature W s d sig" and "\<exists>n. t = s \<lparr> calls := n \<rparr>"
proof -
  show "own_signature W s d sig"
  proof (cases "signer s")
    case True
    with assms show ?thesis
      by (auto simp: sign_external own_signature_def split: sum.splits if_splits)
  next
    case False
    with assms show ?thesis by (simp add: sign_def own_signature_def split: sum.splits if_splits)
  qed
  show "\<exists>n. t = s \<lparr> calls := n \<rparr>" using sign_frame [of W d s] assms by simp
qed

lemma create_payload_frame: "\<exists>n. snd (create_payload W ty d s) = s \<lparr> calls := n \<rparr>"
proof -
  obtain n where n: "snd (sign W x s) = s \<lparr> calls := n x \<rparr>" for x
    using sign_frame [of W _ s] by metis
  have c: "s = s \<lparr> calls := calls s \<rparr>" by simp
  show ?thesis
    using n by (auto simp: create_payload_def and_then_def svc_my_index_def Let_def
        split: prod.splits sum.splits option.splits) (metis c snd_conv)+
qed

lemma create_payload_Inr:
  assumes "create_payload W ty d s = (Inr p, t)"
  shows "my_index (ctx s) = Some (p_validator_index p)" "p_message_type p = ty" "p_data p = d"
    "p_block_index p = block_index (ctx s)" "p_view_number p = view_number (ctx s)"
    "\<exists>n. t = s \<lparr> calls := n \<rparr>"
  using assms create_payload_frame [of W ty d s]
  by (auto simp: create_payload_def and_then_def svc_my_index_def Let_def set_witness_def payload_new_def
      split: prod.splits sum.splits option.splits)

lemma create_payload_ok:
  assumes "my_index (ctx s) = Some i"
  obtains p n where "create_payload W ty d s = (Inr p, s \<lparr> calls := n \<rparr>)"
proof -
  have "\<exists>p t. create_payload W ty d s = (Inr p, t)"
    using assms by (auto simp: create_payload_def and_then_def svc_my_index_def Let_def
        split: prod.splits sum.splits option.splits)
  then show ?thesis using create_payload_Inr(6) that by blast
qed

lemma calls_refines [simp]: "refines once W s (s \<lparr> calls := n \<rparr>)"
  by (intro refines1 round_step.call)

lemma create_payload_refines [simp]: "refines once W s (snd (create_payload W ty d s))"
  using create_payload_frame [of W ty d s] by auto

lemma next_call_refines [simp]: "refines once W s (next_call s)"
  by (simp add: next_call_def)

lemma send_event_refines:
  assumes "quiet e"
  shows "refines once W s (snd (send_event W e s))"
  using round_step.tell [OF assms, of once W s "Suc (calls s)"]
  by (auto simp: send_event_def next_call_def intro: refines1)

lemma broadcast_refines:
  "p_message_type p \<noteq> Commit \<Longrightarrow> refines once W s (snd (broadcast W p s))"
  by (simp add: broadcast_def send_event_refines)

lemma broadcast_then:
  assumes "p_message_type p \<noteq> Commit" and "\<And>t. ctx t = ctx s \<Longrightarrow> refines once W t (snd (k () t))"
  shows "refines once W s (snd (and_then (broadcast W p) k s))"
proof (rule rs.and_then_contract [OF broadcast_refines [OF assms(1)]])
  fix x t assume "broadcast W p s = (Inr x, t)"
  then have "ctx t = ctx s" by (auto simp: broadcast_def send_event_def next_call_def split: if_splits)
  then show "refines once W t (snd (k x t))" using assms(2) by simp
qed

section \<open>Recovery and view changes\<close>

lemma build_recovery_message_state [simp]: "snd (build_recovery_message W s) = s"
  by (simp add: build_recovery_message_def and_then_def svc_my_index_def Let_def split: option.splits)

lemma should_send_recovery_response_state [simp]: "snd (should_send_recovery_response i s) = s"
  by (simp add: should_send_recovery_response_def and_then_def svc_my_index_def Let_def split: option.splits)

lemma payload_then:
  assumes "\<And>p n. p_message_type p = ty \<Longrightarrow> p_data p = d \<Longrightarrow> my_index (ctx s) = Some (p_validator_index p) \<Longrightarrow>
      p_block_index p = block_index (ctx s) \<Longrightarrow> p_view_number p = view_number (ctx s) \<Longrightarrow>
      refines once W (s \<lparr> calls := n \<rparr>) (snd (k p (s \<lparr> calls := n \<rparr>)))"
  shows "refines once W s (snd (and_then (create_payload W ty d) k s))"
proof (rule rs.and_then_contract)
  fix p t assume "create_payload W ty d s = (Inr p, t)"
  from create_payload_Inr [OF this] show "refines once W t (snd (k p t))" using assms by blast
qed simp

lemma resend_recovery_message_refines: "refines once W s (snd (resend_recovery_message W s))"
  unfolding resend_recovery_message_def
  by (intro pure_then payload_then broadcast_refines) auto

lemma maybe_send_recovery_response_refines: "refines once W s (snd (maybe_send_recovery_response W i s))"
  unfolding maybe_send_recovery_response_def
  by (intro pure_then) (auto intro: resend_recovery_message_refines)

lemma on_recovery_request_refines: "refines once W s (snd (on_recovery_request W p s))"
  unfolding on_recovery_request_def
  by (intro pure_then) (auto intro: resend_recovery_message_refines)

lemma clock_then:
  assumes "\<And>now. refines once W (s \<lparr> calls := Suc (calls s) \<rparr>) (snd (k now (s \<lparr> calls := Suc (calls s) \<rparr>)))"
  shows "refines once W s (snd (and_then (current_timestamp W) k s))"
  using refines_then [OF calls_refines assms] by (simp add: and_then_def run_simps)

lemma request_recovery_refines: "refines once W s (snd (request_recovery W s))"
  unfolding request_recovery_def
  by (intro clock_then pure_then payload_then broadcast_refines) auto

lemma add_change_view_then:
  assumes "fresh_vote (ctx s) i v" "my_index (ctx s) = Some i \<or> \<not> own_commit_recorded (ctx s)"
    and "\<And>c. same_core ((ctx s) \<lparr> change_views := hm_insert i (v, r) (change_views (ctx s)) \<rparr>) c \<Longrightarrow>
      refines once W (s \<lparr> ctx := c \<rparr>) (snd (k () (s \<lparr> ctx := c \<rparr>)))"
  shows "refines once W s (snd (and_then (lift_ctx (add_change_view i v r ts)) k s))"
proof (cases "unat i < validator_count (ctx s)")
  case True
  define c where "c = (ctx s) \<lparr> change_views := hm_insert i (v, r) (change_views (ctx s)),
    last_change_view_timestamps := hm_insert i ts (last_change_view_timestamps (ctx s)) \<rparr>"
  have c: "same_core ((ctx s) \<lparr> change_views := hm_insert i (v, r) (change_views (ctx s)) \<rparr>) c"
    by (simp add: c_def same_core_def)
  have "refines once W s (s \<lparr> ctx := c \<rparr>)" using assms(1,2) by (intro refines1 round_step.vote [OF True _ _ c]) simp_all
  with assms(3) [OF c] True show ?thesis
    by (auto simp: and_then_def lift_ctx_def add_change_view_def c_def intro: refines_then)
next
  case False
  then show ?thesis by (simp add: and_then_def lift_ctx_def add_change_view_def)
qed

lemma cache_change_view_core [simp]: "same_core c (cache_change_view_invocation i p c)"
  by (simp add: cache_change_view_invocation_def same_core_def)

lemma fresh_vote_update [simp]: "fresh_vote (c \<lparr> change_view_retry_at := x \<rparr>) = fresh_vote c"
  by (simp add: fun_eq_iff fresh_vote_def)

lemma next_view_fresh:
  "fresh_vote c i (view_number c + 1)" "fresh_vote c i (saturating_add (view_number c) 1)"
proof -
  have "unat x \<le> unat (x + 1)" if "x \<noteq> - 1" for x :: byte
  proof -
    have "unat x \<noteq> 255" using that unat_minus_one_word [where 'a = 8] by (simp add: word_unat_eq_iff)
    then have "Suc (unat x) < 256" using unat_byte_lt [of x] by linarith
    then show ?thesis by (simp add: unat_word_ariths)
  qed
  then show "fresh_vote c i (view_number c + 1)" by (auto simp: fresh_vote_def word_le_nat_alt)
  show "fresh_vote c i (saturating_add (view_number c) 1)"
    using unat_byte_lt [of "view_number c"]
    by (simp add: fresh_vote_def word_le_nat_alt unat_saturating_add min_def del: unat_byte_lt)
qed

lemma broadcast_change_agreement_refines: "refines once W s (snd (broadcast_change_agreement W ts s))"
  unfolding broadcast_change_agreement_def Let_def
  by (rule pure_then, simp, rule add_change_view_then, rule next_view_fresh)
    (auto simp: svc_my_index_Inr intro!: payload_then modify_then local_refines local_refines_ctx broadcast_refines)

lemma broadcast_change_agreement_Inr:
  assumes "broadcast_change_agreement W ts s = (Inr (), t)" and "my_index (ctx s) = Some my"
  shows "same_core ((ctx s) \<lparr> change_views := hm_insert my (saturating_add (view_number (ctx s)) 1, ChangeAgreement)
           (change_views (ctx s)) \<rparr>) (ctx t)"
  using assms
  by (auto simp: broadcast_change_agreement_def Let_def svc_my_index_Inr lift_ctx_def add_change_view_def
      modify_ctx_def broadcast_def send_event_def next_call_def cache_change_view_invocation_def same_core_def
      elim!: and_then_cases dest!: create_payload_Inr(6) split: if_splits)

lemma enough_votes_insert:
  assumes "hm_wf m" and "\<And>v r. hm_get m i = Some (v, r) \<Longrightarrow> \<not> new_view \<le> v"
  shows "length (filter (\<lambda>(v, _). new_view \<le> v) (hm_values m))
         \<le> length (filter (\<lambda>(v, _). new_view \<le> v) (hm_values (hm_insert i x m)))"
proof -
  let ?P = "\<lambda>x. new_view \<le> fst (snd x)"
  have "filter ?P m = filter ?P (hm_remove i m)"
    using hm_in_get [OF assms(1)] assms(2)
    by (fastforce simp: hm_remove_def intro: filter_cong)
  then show ?thesis
    by (simp add: hm_values_def hm_insert_def filter_map comp_def case_prod_beta)
qed

lemma agreement_keeps_votes:
  assumes "tidy s" and "has_enough_change_views v (ctx s)" and "my_index (ctx s) = Some my"
    and "\<not> (case hm_get (change_views (ctx s)) my of Some (w, _) \<Rightarrow> w \<ge> v | None \<Rightarrow> False)"
    and "broadcast_change_agreement W ts s = (Inr x, t)"
  shows "has_enough_change_views v (ctx t)" and "view_number (ctx t) = view_number (ctx s)"
    and "own_commit_recorded (ctx t) = own_commit_recorded (ctx s)"
proof -
  have core: "same_core ((ctx s) \<lparr> change_views := hm_insert my
      (saturating_add (view_number (ctx s)) 1, ChangeAgreement) (change_views (ctx s)) \<rparr>) (ctx t)"
    using broadcast_change_agreement_Inr assms(3,5) by simp
  then show "view_number (ctx t) = view_number (ctx s)" by (simp add: same_core_def)
  show "own_commit_recorded (ctx t) = own_commit_recorded (ctx s)"
    using same_core_derived(9) [OF core] by simp
  show "has_enough_change_views v (ctx t)"
    using assms(1,2,4) core
      enough_votes_insert [of "change_views (ctx s)" my v "(saturating_add (view_number (ctx s)) 1, ChangeAgreement)"]
    by (auto simp: same_core_def has_enough_change_views_def quorum_m_def quorum_f_def
        validator_count_def tidy_def split: option.splits)
qed

lemma change_view_refines:
  assumes "has_enough_change_views v (ctx s)" "own_commit_recorded (ctx s) \<Longrightarrow> calls_for (ctx s) v"
  shows "refines once W s (snd (change_view W v ts s))"
proof (cases "v \<le> view_number (ctx s)")
  case True
  then show ?thesis by (simp add: change_view_def Let_def)
next
  case newer: False
  have move: "refines once W t (snd (and_then (modify_ctx (reset_for_new_view v ts)) (\<lambda>_ s.
       send_event W (ViewChanged (block_index (ctx s)) old v) s) t))"
    if "has_enough_change_views v (ctx t)" "view_number (ctx t) = view_number (ctx s)"
      "own_commit_recorded (ctx t) \<Longrightarrow> calls_for (ctx t) v" for t old
    using newer that by (intro modify_then refines1 [OF round_step.new_view] send_event_refines) auto
  consider (none) "my_index (ctx s) = None"
    | (agreed) my where "my_index (ctx s) = Some my"
        "case hm_get (change_views (ctx s)) my of Some (w, _) \<Rightarrow> w \<ge> v | None \<Rightarrow> False"
    | (agree) my where "my_index (ctx s) = Some my"
        "\<not> (case hm_get (change_views (ctx s)) my of Some (w, _) \<Rightarrow> w \<ge> v | None \<Rightarrow> False)"
    by (cases "my_index (ctx s)") auto
  then show ?thesis
  proof cases
    case none
    with newer move [of s] assms show ?thesis
      by (simp add: change_view_def Let_def and_then_Inr [OF ok_def])
  next
    case agreed
    with newer move [of s] assms show ?thesis
      by (simp add: change_view_def Let_def and_then_Inr [OF ok_def])
  next
    case agree
    have uncommitted: "\<not> own_commit_recorded (ctx s)"
      using agree assms(2) by (auto simp: calls_for_def)
    have "refines once W s (snd (and_then (broadcast_change_agreement W ts) (\<lambda>_.
        and_then (modify_ctx (reset_for_new_view v ts)) (\<lambda>_ s.
        send_event W (ViewChanged (block_index (ctx s)) old v) s)) s))" for old
    proof (cases "tidy s")
      case True
      note kept = agreement_keeps_votes [OF True assms(1) agree]
      show ?thesis
        by (rule rs.and_then_contract [OF broadcast_change_agreement_refines], rule move)
          (use kept uncommitted in auto)
    qed (rule refines_untidy)
    then show ?thesis using newer agree by (simp add: change_view_def Let_def)
  qed
qed

lemma calls_for_core: "same_core c d \<Longrightarrow> calls_for d = calls_for c"
  by (simp add: fun_eq_iff calls_for_def same_core_def)

lemma own_vote_calls:
  assumes "same_core (c \<lparr> change_views := hm_insert my (view_number c + 1, r) (change_views c) \<rparr>) d" "my_index c = Some my"
  shows "calls_for d (view_number c + 1)"
  using calls_for_core [OF assms(1)] assms(2) by (simp add: calls_for_def)

lemma request_change_view_refines: "refines once W s (snd (request_change_view W reason ts s))"
proof -
  have announce: "refines once W t (snd (and_then (create_payload W ChangeView body) (\<lambda>p.
       and_then (modify_ctx (cache_change_view_invocation my p)) (\<lambda>_.
       and_then (broadcast W p) (\<lambda>_ s.
       if has_enough_change_views v (ctx s) then change_view W v ts s else ok () s))) t))"
    if "calls_for (ctx t) v" for t body my v
    using that calls_for_core [OF cache_change_view_core]
    by (auto intro!: payload_then modify_then broadcast_then change_view_refines local_refines)
  have vote: "refines once W t (snd (and_then (lift_ctx (add_change_view my v reason ts)) (\<lambda>_ s.
       and_then (create_payload W ChangeView (body s)) (\<lambda>p.
       and_then (modify_ctx (cache_change_view_invocation my p)) (\<lambda>_.
       and_then (broadcast W p) (\<lambda>_ s.
       if has_enough_change_views v (ctx s) then change_view W v ts s else ok () s))) s) t))"
    if "my_index (ctx t) = Some my" "v = view_number (ctx t) + 1" for t body my v
    using that by (intro add_change_view_then announce) (auto intro: own_vote_calls next_view_fresh)
  show ?thesis
    unfolding request_change_view_def Let_def
    by (rule modify_then, simp add: local_refines same_core_def)
      (auto simp: svc_my_index_Inr intro!: request_recovery_refines pure_then [where m = svc_my_index] vote)
qed

lemma record_invalid_transactions_core [simp]: "same_core c (record_invalid_transactions i hs c)"
proof -
  have "same_core c d \<Longrightarrow> same_core c (record_invalid_transactions i hs d)" for d
    by (induction hs arbitrary: d) (simp_all add: record_invalid_transactions_def same_core_def)
  then show ?thesis by simp
qed

lemma on_change_view_refines: "refines once W s (snd (on_change_view W p s))"
proof -
  have vote: "refines once W s (snd (and_then (lift_ctx (add_change_view i v r ts)) (\<lambda>_.
       and_then (modify_ctx (cache_change_view_invocation i p)) (\<lambda>_ s.
       if has_enough_change_views v (ctx s) then change_view W v ts s else ok () s)) s))"
    if "\<not> (case hm_get (change_views (ctx s)) i of Some (w, _) \<Rightarrow> v \<le> w | None \<Rightarrow> False)"
      "\<not> own_commit_recorded (ctx s)" for s i v r ts
  proof -
    have "\<not> own_commit_recorded (cache_change_view_invocation i p c)"
      if "same_core ((ctx s) \<lparr> change_views := hm_insert i (v, r) (change_views (ctx s)) \<rparr>) c" for c
      using same_core_derived(9) [OF cache_change_view_core [of c i p]] same_core_derived(9) [OF that]
        \<open>\<not> own_commit_recorded (ctx s)\<close> by simp
    then show ?thesis
      using that
      by (intro add_change_view_then modify_then)
        (auto simp: fresh_vote_def intro: local_refines_ctx change_view_refines split: option.splits)
  qed
  show ?thesis
    unfolding on_change_view_def
    by (intro pure_then check_witness_state from_result_state rs.and_then_contract)
      (auto intro: modify_refines maybe_send_recovery_response_refines vote)
qed

section \<open>Commits\<close>

lemma prepare_block_data_state [simp]: "snd (prepare_block_data s) = s"
  by (simp add: prepare_block_data_def Let_def)

lemma check_commits_refines:
  assumes "proposed_block_hash (ctx s) \<noteq> None \<or> prepare_request_received (ctx s)"
  shows "refines once W s (snd (check_commits W s))"
proof (cases "has_enough_commits (ctx s) \<and> \<not> has_missing_proposed_transactions (ctx s) \<and> round_state (ctx s) \<noteq> Committed")
  case True
  define c where "c = (ctx s) \<lparr> round_state := Committed \<rparr>"
  have fin: "refines once W s (s \<lparr> ctx := c, outbox := outbox s @ evs, calls := n, running := b \<rparr>)"
    if "evs = [] \<or> (\<exists>data. evs = [(BlockCommitted (block_index c) (unwrap_hash (proposed_block_hash c)) data, c, disk s)]
                  \<and> fst (prepare_block_data (s \<lparr> ctx := c \<rparr>)) = Inr data)" for evs b n
    using True assms that by (intro refines1 round_step.finish) (auto simp: c_def)
  obtain r where r: "prepare_block_data (s \<lparr> ctx := c \<rparr>) = (r, s \<lparr> ctx := c \<rparr>)"
    by (metis prepare_block_data_state prod.collapse)
  show ?thesis
    using True fin [where evs = "[]" and n = "calls s" and b = "running s"]
      fin [where evs = "[]" and n = "Suc (calls s)" and b = "running s"]
      fin [where evs = "[(_, _, _)]" and n = "Suc (calls s)" and b = False] r
    by (cases r) (simp_all add: check_commits_def and_then_def modify_ctx_def c_def send_event_def next_call_def set_running_def)
next
  case False
  then show ?thesis by (auto simp: check_commits_def)
qed

lemma add_commit_then:
  assumes "\<not> hm_contains (commits (ctx s)) i"
    and "\<And>h. view = view_number (ctx s) \<Longrightarrow> proposed_block_hash (ctx s) = Some h \<Longrightarrow>
       verify_signature W s (block_sign_data s h) sig i"
    and "\<And>c. same_core (record_commit i view sig (ctx s)) c \<Longrightarrow> refines once W (s \<lparr> ctx := c \<rparr>) (snd (k () (s \<lparr> ctx := c \<rparr>)))"
  shows "refines once W s (snd (and_then (lift_ctx (add_commit i view sig)) k s))"
proof (cases "unat i < validator_count (ctx s)")
  case True
  have "refines once W s (s \<lparr> ctx := record_commit i view sig (ctx s) \<rparr>)"
    using assms(1,2) by (intro refines1 round_step.commit [OF True, where view = view and sig = sig]) auto
  with assms(3) [OF same_core_refl] True show ?thesis
    by (auto simp: and_then_def lift_ctx_def add_commit_def record_commit_def intro: refines_then)
next
  case False
  then show ?thesis by (simp add: and_then_def lift_ctx_def add_commit_def)
qed

lemma cache_commit_invocation_core [simp]: "same_core c (cache_commit_invocation p c)"
  by (simp add: cache_commit_invocation_def same_core_def)

lemma on_commit_refines: "refines once W s (snd (on_commit W p s))"
proof -
  have rec: "refines once W s (snd (and_then (lift_ctx (add_commit (p_validator_index p) (p_view_number p) sig))
      (\<lambda>_. modify_ctx (cache_commit_invocation p)) s))"
    if "\<not> hm_contains (commits (ctx s)) (p_validator_index p)"
      "p_view_number p \<noteq> view_number (ctx s) \<or> proposed_block_hash (ctx s) = None" for s sig
    using that by (intro add_commit_then) (auto intro: modify_refines)
  have "refines once W s (snd (and_then (and_then (lift_ctx (add_commit (p_validator_index p) (p_view_number p) sig))
        (\<lambda>_. modify_ctx (cache_commit_invocation p))) (\<lambda>_.
        and_then (modify_ctx (\<lambda>c. if p_view_number p = view_number c then extend_timer_by_factor 4 c else c)) (\<lambda>_.
        check_commits W)) s))"
    if "\<not> hm_contains (commits (ctx s)) (p_validator_index p)" "proposed_block_hash (ctx s) = Some h"
      "verify_signature W s (block_sign_data s h) sig (p_validator_index p)" for s sig h
    unfolding and_then_assoc using that
    by (intro add_commit_then modify_then local_refines check_commits_refines)
      (auto simp: same_core_def record_commit_def cache_commit_invocation_def extend_timer_by_factor_def Let_def)
  with rec show ?thesis
    unfolding on_commit_def Let_def
    by (cases "length (p_data p) < 64", simp, simp only: if_False, intro pure_then check_witness_state)
      (auto split: option.split)
qed

end
