(* ===== verification/Dbft_Refinement.thy ===== *)
theory Dbft_Refinement
  imports Dbft_Round
begin

text \<open>
  The second half of the refinement: signing and publishing the own commit, preparation
  messages, proposals, recovery messages, the timer and the message dispatcher are sequences of
  protocol moves.
\<close>

section \<open>Preparations\<close>

lemma save_frame:
  assumes "save_context_if_configured W s = (r, t)"
  obtains d n where "t = s \<lparr> disk := d, calls := n \<rparr>" "r = Inr () \<Longrightarrow> saved W (state_path s) (ctx s) d"
proof (rule that)
  show "t = s \<lparr> disk := disk t, calls := calls t \<rparr>" and "r = Inr () \<Longrightarrow> saved W (state_path s) (ctx s) (disk t)"
    using assms
    by (auto simp: save_context_if_configured_def save_to_def context_to_bytes_def next_call_def saved_def
        split: option.splits sum.splits if_splits)
qed

lemma broadcast_frame:
  assumes "broadcast W p s = (r, t)"
  obtains (sent) "r = Inr ()" "t = s \<lparr> outbox := outbox s @ [(BroadcastMessage p, ctx s, disk s)], calls := Suc (calls s) \<rparr>"
  | (lost) e where "r = Inl e" "t = s \<lparr> calls := Suc (calls s) \<rparr>"
  using assms by (auto simp: broadcast_def send_event_def next_call_def split: if_splits)

lemma publish_commit_refines:
  assumes gate: "commit_gate (ctx s)" "my_index (ctx s) = Some my" "unat my < validator_count (ctx s)"
    and h: "h = unwrap_hash (proposed_block_hash (ctx s))" "own_signature W s (block_sign_data s h) sig"
    and c: "same_core (record_commit my (view_number (ctx s)) sig (ctx s)) c"
    and p: "own_commit_payload (ctx s) my sig p"
    and t: "t = s \<lparr> ctx := c, signed_blocks := signed_blocks s @ [(block_index (ctx s), view_number (ctx s), h)], calls := n \<rparr>"
  shows "refines once W s (snd (and_then (save_context_if_configured W) (\<lambda>_.
           and_then (broadcast W p) (\<lambda>_. check_commits W)) t))"
proof -
  have own: "refines once W s (s \<lparr> ctx := c, signed_blocks := signed_blocks s @ [(block_index (ctx s), view_number (ctx s), h)],
      disk := d, outbox := outbox s @ evs, calls := n \<rparr>)"
    if "evs = [] \<or> (\<exists>p. evs = [(BroadcastMessage p, c, d)] \<and> own_commit_payload (ctx s) my sig p
                  \<and> saved W (state_path s) c d)" for evs d n
    by (intro refines1 round_step.own_commit [OF gate h c] that)
  obtain r u where u: "save_context_if_configured W t = (r, u)" by fastforce
  then obtain d m where d: "u = t \<lparr> disk := d, calls := m \<rparr>" "r = Inr () \<Longrightarrow> saved W (state_path s) c d"
    by (elim save_frame) (simp add: t)
  show ?thesis
  proof (cases r)
    case (Inl e)
    then show ?thesis using own [where evs = "[]" and d = d and n = m] u d
      by (simp add: and_then_def t)
  next
    case Inr
    obtain q v where v: "broadcast W p u = (q, v)" by fastforce
    then show ?thesis
    proof (cases rule: broadcast_frame)
      case (lost e)
      then show ?thesis using own [where evs = "[]" and d = d and n = "Suc m"] u d v Inr
        by (simp add: and_then_def t)
    next
      case sent
      have "refines once W s v"
        using own [where evs = "[(BroadcastMessage p, c, d)]" and d = d and n = "Suc m"] u d sent Inr p
        by (simp add: t)
      moreover have "refines once W v (snd (check_commits W v))"
        using gate(1) c d sent
        by (intro check_commits_refines) (auto simp: t same_core_def record_commit_def commit_gate_def)
      ultimately show ?thesis using u v Inr sent by (simp add: and_then_def refines_then)
    qed
  qed
qed

text \<open>What \<^verbatim>\<open>check_prepare_responses\<close> does once the block hash is signed.\<close>

definition after_signing :: "env \<Rightarrow> bytes \<Rightarrow> unit svc" where
  "after_signing W signature = and_then svc_my_index (\<lambda>my s.
       and_then (create_payload W Commit signature) (\<lambda>p.
       and_then (modify_ctx (\<lambda>c. if p_witness p \<noteq> []
                   then c \<lparr> commit_invocations := hm_insert my
                            (invocation_script_from_signature (p_witness p)) (commit_invocations c) \<rparr>
                   else c)) (\<lambda>_ s.
       and_then (lift_ctx (add_commit my (view_number (ctx s)) signature)) (\<lambda>_.
       and_then (save_context_if_configured W) (\<lambda>_.
       and_then (broadcast W p) (\<lambda>_. check_commits W))) s)) s)"

lemma check_prepare_responses_gate:
  assumes "commit_gate (ctx s)" and "h = unwrap_hash (proposed_block_hash (ctx s))"
  shows "check_prepare_responses W s = and_then (sign_block_hash W h) (after_signing W) s"
  using assms
  by (simp add: check_prepare_responses_def commit_gate_def after_signing_def [abs_def] commit_serialize_def)

lemma after_signing_unlisted: "\<not> listed (ctx t) \<Longrightarrow> refines once W t (snd (after_signing W sig t))"
  unfolding after_signing_def
  by (intro pure_then payload_then modify_then)
    (auto simp: listed_def and_then_def lift_ctx_def add_commit_def svc_my_index_Inr
      validator_count_def same_core_def split: if_splits intro!: local_refines_ctx local_refines)

lemma ctx_update_last:
  "s \<lparr> signed_blocks := x, calls := m, ctx := c \<rparr> = s \<lparr> ctx := c, signed_blocks := x, calls := m \<rparr>"
  by (cases s) simp

lemma after_signing_listed:
  assumes gate: "commit_gate (ctx s)" and my: "my_index (ctx s) = Some my" "unat my < validator_count (ctx s)"
    and h: "h = unwrap_hash (proposed_block_hash (ctx s))" "own_signature W s (block_sign_data s h) sig"
    and t: "t = s \<lparr> signed_blocks := signed_blocks s @ [(block_index (ctx s), view_number (ctx s), h)], calls := n \<rparr>"
  shows "refines once W s (snd (after_signing W sig t))"
proof -
  obtain p m where p: "create_payload W Commit sig t = (Inr p, t \<lparr> calls := m \<rparr>)"
    using create_payload_ok [of t my W Commit sig] my by (auto simp: t)
  have "own_commit_payload (ctx s) my sig p"
    using create_payload_Inr [OF p] my by (simp add: own_commit_payload_def t)
  note publish = publish_commit_refines [OF gate my h _ this]
  define c where "c = (if p_witness p \<noteq> [] then (ctx s) \<lparr> commit_invocations := hm_insert my
      (invocation_script_from_signature (p_witness p)) (commit_invocations (ctx s)) \<rparr> else ctx s)"
  define d where "d = record_commit my (view_number (ctx s)) sig c"
  have core: "same_core (record_commit my (view_number (ctx s)) sig (ctx s)) d"
    by (simp add: d_def c_def same_core_def record_commit_def)
  have "after_signing W sig t = and_then (save_context_if_configured W) (\<lambda>_.
      and_then (broadcast W p) (\<lambda>_. check_commits W))
      (s \<lparr> ctx := d, signed_blocks := signed_blocks s @ [(block_index (ctx s), view_number (ctx s), h)], calls := m \<rparr>)"
    using my p
    by (simp add: after_signing_def and_then_def [of svc_my_index] svc_my_index_def t ctx_update_last
        and_then_def [of "create_payload W Commit sig"] and_then_def [of "modify_ctx _"] modify_ctx_def
        and_then_def [of "lift_ctx _"] lift_ctx_def add_commit_def d_def c_def record_commit_def
        validator_count_def)
  then show ?thesis using publish [OF core refl] by simp
qed

lemma check_prepare_responses_refines:
  assumes "has_peers (ctx s)"
  shows "refines once W s (snd (check_prepare_responses W s))"
proof (cases "commit_gate (ctx s)")
  case False
  with assms show ?thesis by (auto simp: check_prepare_responses_def commit_gate_def)
next
  case gate: True
  define h where "h = unwrap_hash (proposed_block_hash (ctx s))"
  obtain r u where u: "sign W (block_sign_data s h) s = (r, u)" by fastforce
  then obtain n where n: "u = s \<lparr> calls := n \<rparr>" using sign_frame [of W "block_sign_data s h" s] by auto
  show ?thesis
  proof (cases r)
    case (Inl e)
    with check_prepare_responses_gate [OF gate h_def] u n show ?thesis
      by (simp add: sign_block_hash_def and_then_def block_sign_data_def)
  next
    case (Inr sig)
    define t where "t = s \<lparr> signed_blocks := signed_blocks s @ [(block_index (ctx s), view_number (ctx s), h)], calls := n \<rparr>"
    have run: "check_prepare_responses W s = after_signing W sig t"
      using check_prepare_responses_gate [OF gate h_def] u n Inr
      by (simp add: sign_block_hash_def and_then_def block_sign_data_def t_def) (cases s, simp)
    have own: "own_signature W s (block_sign_data s h) sig" using u Inr sign_Inr by simp
    show ?thesis
    proof (cases "listed (ctx s)")
      case False
      have "refines once W s t" unfolding t_def by (intro refines1 round_step.unlisted False)
      moreover have "refines once W t (snd (after_signing W sig t))"
        using False by (intro after_signing_unlisted) (simp add: t_def)
      ultimately show ?thesis using run refines_then by simp
    next
      case True
      then show ?thesis
        using after_signing_listed [OF gate _ _ h_def own t_def] run
        by (auto simp: listed_def split: option.splits)
    qed
  qed
qed

lemma has_peers_core: "same_core c d \<Longrightarrow> has_peers d = has_peers c"
  by (simp add: has_peers_def same_core_def validator_count_def)

lemma single_primary: "validator_count c = 1 \<Longrightarrow> primary_index c = 0"
  by (simp add: primary_index_def)

lemma add_prepare_response_then:
  assumes "i \<noteq> primary_index (ctx s)"
    and "\<And>c. same_core ((ctx s) \<lparr> prepare_responses := hm_insert i x (prepare_responses (ctx s)) \<rparr>) c \<Longrightarrow>
      has_peers c \<Longrightarrow> refines once W (s \<lparr> ctx := c \<rparr>) (snd (k () (s \<lparr> ctx := c \<rparr>)))"
  shows "refines once W s (snd (and_then (lift_ctx (add_prepare_response i x h)) k s))"
proof (cases "unat i < validator_count (ctx s)")
  case True
  define c where "c = snd (add_prepare_response i x h (ctx s))"
  have c: "same_core ((ctx s) \<lparr> prepare_responses := hm_insert i x (prepare_responses (ctx s)) \<rparr>) c"
    using True by (simp add: c_def add_prepare_response_def same_core_def Let_def split: option.split)
  have "has_peers c"
  proof -
    have "validator_count (ctx s) \<noteq> 1"
      using True assms(1) single_primary [of "ctx s"] by (auto simp: unat_eq_zero)
    then show ?thesis using has_peers_core [OF c] by (simp add: has_peers_def validator_count_def)
  qed
  moreover have "refines once W s (s \<lparr> ctx := c \<rparr>)" by (intro refines1 round_step.response [OF True assms(1) c])
  ultimately show ?thesis using assms(2) [OF c] True
    by (auto simp: and_then_def lift_ctx_def add_prepare_response_def c_def Let_def intro: refines_then)
next
  case False
  then show ?thesis by (simp add: and_then_def lift_ctx_def add_prepare_response_def)
qed

lemma send_prepare_response_refines: "refines once W s (snd (send_prepare_response W s))"
proof -
  have respond: "refines once W s (snd (and_then (modify_ctx (extend_timer_by_factor 2)) (\<lambda>_ s.
         and_then (create_payload W PrepareResponse (body s)) (\<lambda>p.
         and_then (broadcast W p) (\<lambda>_.
         and_then (lift_ctx (add_prepare_response my (invocation_script_from_signature (p_witness p)) (hash s))) (\<lambda>_.
         check_prepare_responses W))) s) s))"
    if "\<not> is_primary (ctx s)" "my_index (ctx s) = Some my" for my body hash
    using that
    by (intro modify_then payload_then broadcast_then add_prepare_response_then check_prepare_responses_refines
        local_refines)
      (auto simp: is_primary_def same_core_derived(4) [OF same_core_extend_timer])
  have reject: "refines once W s (snd (and_then (current_timestamp W) (\<lambda>now. request_change_view W BlockRejectedByPolicy now) s))"
    by (intro clock_then request_change_view_refines)
  show ?thesis
    unfolding send_prepare_response_def Let_def
    using respond reject by (simp split: option.split)
qed

lemma on_prepare_response_refines: "refines once W s (snd (on_prepare_response W p s))"
proof -
  have noted: "refines once W s (snd (and_then (lift_ctx (add_prepare_response (p_validator_index p) x h)) (\<lambda>_.
       and_then (modify_ctx (extend_timer_by_factor 2)) (\<lambda>_.
       check_prepare_responses W)) s))"
    if "p_validator_index p \<noteq> primary_index (ctx s)" for x h
    using that
    by (intro add_prepare_response_then modify_then check_prepare_responses_refines)
      (auto simp: has_peers_core [OF same_core_extend_timer] intro: local_refines_ctx)
  have "snd ((case preparation_hash (ctx s) of
        Some expected \<Rightarrow> from_result (prepare_response_validate msg expected) | None \<Rightarrow> ok ()) s) = s" for msg
    by (simp add: from_result_def ok_def split: option.split)
  then show ?thesis
    unfolding on_prepare_response_def
    by (auto intro!: pure_then [where m = "check_witness _ _ _ _"] pure_then [where m = "from_result _"]
        pure_then [where m = "case_option _ _ _"] noted)
qed

section \<open>Accepting and making proposals\<close>

lemma dbft_payload_hash_cong:
  "validators (ctx s) = validators (ctx t) \<Longrightarrow> dbft_payload_hash W s p = dbft_payload_hash W t p"
  by (simp add: dbft_payload_hash_def dbft_unsigned_extensible_bytes_def dbft_sender_def get_validator_def)

lemma check_witness_hash:
  assumes "check_witness W p a b s = (Inr x, t)"
  obtains h where "dbft_payload_hash W s p = Inr h" "t = s"
proof (cases "dbft_payload_hash W s p")
  case (Inl e)
  with assms show ?thesis
    by (simp add: check_witness_def dbft_sign_data_def and_then_def from_result_def split: if_splits)
next
  case (Inr h)
  moreover have "t = s" using check_witness_state [of W p a b s] assms by simp
  ultimately show ?thesis by (rule that)
qed

lemma install_then:
  assumes "prepare_request_received (ctx s) \<Longrightarrow> is_primary (ctx s) \<and> \<not> once" "distinct available" "set available \<subseteq> set hs"
    and "length hs \<le> unat (max_transactions_per_block s)"
    and "previous_block_timestamp (ctx s) \<noteq> - 1 \<Longrightarrow> previous_block_timestamp (ctx s) < ts"
    and "same_core (install W r ts no hs available (hm_retain P (prepare_responses (ctx s))) (ctx s)) c"
    and "\<And>t. proposed_block_hash (ctx t) \<noteq> None \<Longrightarrow> refines once W t (snd (k () t))"
  shows "refines once W s (snd (and_then (\<lambda>s. (Inr (), revalidate_current_view_commits W s)) k (s \<lparr> ctx := c \<rparr>)))"
proof -
  define t where "t = revalidate_current_view_commits W (s \<lparr> ctx := c \<rparr>)"
  have "proposed_block_hash (ctx t) \<noteq> None"
    using revalidate_frame [of W "s \<lparr> ctx := c \<rparr>"] assms(6)
    by (auto simp: t_def same_core_def install_def Let_def)
  then have "refines once W t (snd (k () t))" by (rule assms(7))
  moreover have "refines once W s t"
    unfolding t_def by (intro refines1 round_step.propose [OF assms(1-6)])
  ultimately show ?thesis by (simp add: and_then_def t_def refines_then)
qed

lemma context_header_hash_core:
  "same_core c (d \<lparr> proposed_block_hash := proposed_block_hash c \<rparr>) \<Longrightarrow> context_header_hash W d = context_header_hash W c"
  by (simp add: same_core_def context_header_hash_def primary_index_def validator_count_def)

lemma accept_proposal_refines:
  assumes "\<not> prepare_request_received (ctx s)" "previous_block_timestamp (ctx s) < prq_timestamp req"
    and "length (prq_transaction_hashes req) \<le> unat (max_transactions_per_block s)"
    and "prq_version req = version (ctx s)" "prq_prev_hash req = prev_hash (ctx s)"
    and "dbft_payload_hash W s p = Inr h"
    and k: "\<And>t. refines once W t (snd (k () t))"
  shows "refines once W s (snd (and_then (modify_ctx (store_proposal p req)) (\<lambda>_ s.
     and_then (from_result (dbft_payload_hash W s p)) (\<lambda>h.
     and_then (modify_ctx (\<lambda>c. retain_responses_for h (c \<lparr> preparation_hash := Some h \<rparr>))) (\<lambda>_.
     and_then (modify_ctx (\<lambda>c. c \<lparr> proposed_block_hash := Some (context_header_hash W c) \<rparr>)) (\<lambda>_.
     and_then (\<lambda>s. (Inr (), revalidate_current_view_commits W s)) k))) s) s))"
proof -
  define c where "c = retain_responses_for h ((store_proposal p req (ctx s)) \<lparr> preparation_hash := Some h \<rparr>)"
  define d where "d = c \<lparr> proposed_block_hash := Some (context_header_hash W c) \<rparr>"
  have "dbft_payload_hash W (s \<lparr> ctx := store_proposal p req (ctx s) \<rparr>) p = Inr h"
    using assms(6) dbft_payload_hash_cong [of "s \<lparr> ctx := store_proposal p req (ctx s) \<rparr>" s W p]
    by (simp add: store_proposal_def)
  moreover have "same_core (install W True (prq_timestamp req) (prq_nonce req) (prq_transaction_hashes req) []
      (hm_retain (\<lambda>i _. hm_get (prepare_response_hashes (ctx s)) i = Some h) (prepare_responses (ctx s))) (ctx s)) d"
    using assms(4,5)
    by (simp add: same_core_def install_def d_def c_def retain_responses_for_def store_proposal_def
        context_header_hash_def primary_index_def validator_count_def Let_def)
  note install_then [where k = k, OF _ _ _ _ _ this]
  ultimately show ?thesis
    using k assms(1-3)
    by (simp add: and_then_def [of "modify_ctx _"] modify_ctx_def and_then_def [of "from_result _"]
        from_result_def c_def d_def)
qed

lemma check_proposal_then:
  assumes "\<And>n. prq_version req = version (ctx s) \<Longrightarrow> prq_prev_hash req = prev_hash (ctx s) \<Longrightarrow>
      previous_block_timestamp (ctx s) < prq_timestamp req \<Longrightarrow>
      refines once W (s \<lparr> calls := n \<rparr>) (snd (k () (s \<lparr> calls := n \<rparr>)))"
  shows "refines once W s (snd (and_then (check_proposal W req) k s))"
proof -
  have "refines once W s (snd (k () (s \<lparr> calls := Suc (calls s) \<rparr>)))"
    if "prq_version req = version (ctx s)" "prq_prev_hash req = prev_hash (ctx s)"
      "previous_block_timestamp (ctx s) < prq_timestamp req"
    using refines_then [OF calls_refines assms [OF that]] .
  then show ?thesis
    by (auto simp: check_proposal_def and_then_def run_simps)
qed

lemma on_prepare_request_refines: "refines once W s (snd (on_prepare_request W p s))"
proof -
  have reply: "refines once W t (snd (and_then (modify_ctx (extend_timer_by_factor 2)) (\<lambda>_ s.
     if proposed_tx_hashes (ctx s) = [] then send_prepare_response W s
     else if is_backup (ctx s)
     then send_event W (RequestProposalTransactions (block_index (ctx s)) (proposed_tx_hashes (ctx s))) s
     else ok () s) t))" for t
    by (intro modify_then) (auto intro: local_refines send_prepare_response_refines send_event_refines)
  have accept: "refines once W s (snd (and_then (from_result (prepare_request_deserialize_body (p_data p) (p_block_index p)
                      (p_view_number p) v)) (\<lambda>req s.
     and_then (from_result (prepare_request_validate req (primary_index (ctx s)) (max_transactions_per_block s))) (\<lambda>_.
     and_then (check_proposal W req) (\<lambda>_.
     and_then (modify_ctx (store_proposal p req)) (\<lambda>_ s.
     and_then (from_result (dbft_payload_hash W s p)) (\<lambda>h.
     and_then (modify_ctx (\<lambda>c. retain_responses_for h (c \<lparr> preparation_hash := Some h \<rparr>))) (\<lambda>_.
     and_then (modify_ctx (\<lambda>c. c \<lparr> proposed_block_hash := Some (context_header_hash W c) \<rparr>)) (\<lambda>_.
     and_then (\<lambda>s. (Inr (), revalidate_current_view_commits W s)) (\<lambda>_.
     and_then (modify_ctx (extend_timer_by_factor 2)) (\<lambda>_ s.
     if proposed_tx_hashes (ctx s) = [] then send_prepare_response W s
     else if is_backup (ctx s)
     then send_event W (RequestProposalTransactions (block_index (ctx s)) (proposed_tx_hashes (ctx s))) s
     else ok () s))))) s))) s) s))"
    if "\<not> prepare_request_received (ctx s)" "dbft_payload_hash W s p = Inr h" for h v
    using that dbft_payload_hash_cong [of "s \<lparr> calls := _ \<rparr>" s W p]
    by (intro pure_then from_result_state check_proposal_then accept_proposal_refines [where h = h] reply)
      (auto simp: from_result_def prepare_request_validate_def split: if_splits)
  show ?thesis
    unfolding on_prepare_request_def
    by (auto intro!: pure_then [where m = "check_witness _ _ _ _"] accept elim: check_witness_hash)
qed

lemma mark_available_distinct:
  "distinct (available_tx_hashes (mark_available_transactions hs c))"
  "set (available_tx_hashes (mark_available_transactions hs c)) \<subseteq> set (proposed_tx_hashes c)"
proof -
  let ?f = "fold (\<lambda>h acc. if h \<in> set (proposed_tx_hashes c) then hs_insert h acc else acc)"
  have "distinct (?f hs acc)" if "distinct acc" for acc
    using that by (induction hs arbitrary: acc) auto
  then show "distinct (available_tx_hashes (mark_available_transactions hs c))"
    by (simp add: mark_available_transactions_def)
  have "set (?f hs acc) \<subseteq> set (proposed_tx_hashes c)" if "set acc \<subseteq> set (proposed_tx_hashes c)" for acc
    using that by (induction hs arbitrary: acc) (auto simp: hs_insert_def)
  from this [of "[]"] show "set (available_tx_hashes (mark_available_transactions hs c)) \<subseteq> set (proposed_tx_hashes c)"
    by (simp add: mark_available_transactions_def)
qed

lemma prepare_request_timestamp_later:
  "prev \<noteq> - 1 \<Longrightarrow> prev < prepare_request_timestamp now prev"
proof -
  assume "prev \<noteq> - 1"
  then have "unat prev \<noteq> 2 ^ 64 - 1"
    using unat_minus_one_word [where 'a = 64] \<open>prev \<noteq> - 1\<close> by (simp add: word_unat_eq_iff)
  moreover have "unat prev < 2 ^ 64" using unsigned_less [of prev] by simp
  ultimately have "unat prev < unat (saturating_add prev 1)"
    by (simp add: unat_saturating_add)
  then have "prev < saturating_add prev 1" by (simp add: word_less_nat_alt)
  then show ?thesis by (simp add: prepare_request_timestamp_def less_max_iff_disj)
qed

lemma nonce_then:
  assumes "\<And>no. refines once W (s \<lparr> calls := Suc (calls s) \<rparr>) (snd (k no (s \<lparr> calls := Suc (calls s) \<rparr>)))"
  shows "refines once W s (snd (and_then (generate_nonce W) k s))"
  using refines_then [OF calls_refines assms] by (simp add: and_then_def run_simps)

lemma hm_retain_all [simp]: "hm_retain (\<lambda>_ _. True) m = m"
  by (simp add: hm_retain_def case_prod_beta)

lemma modify_and_then: "and_then (modify_ctx f) k s = k () (s \<lparr> ctx := f (ctx s) \<rparr>)"
  by (simp add: and_then_def modify_ctx_def)

lemma my_index_and_then: "my_index (ctx s) = Some i \<Longrightarrow> and_then svc_my_index k s = k i s"
  by (simp add: and_then_def svc_my_index_def)

lemma ctx_of_update: "ctx (s \<lparr> ctx := c \<rparr>) = c" "ctx (s \<lparr> calls := n \<rparr>) = ctx s"
  "s \<lparr> ctx := c, calls := n, ctx := d, ctx := e \<rparr> = s \<lparr> ctx := c, calls := n, ctx := e \<rparr>"
  by simp_all

lemma install_own_proposal:
  assumes "prepare_request_received (ctx s) \<Longrightarrow> is_primary (ctx s) \<and> \<not> once" "my_index (ctx s) = Some my"
    and "length hs \<le> unat (max_transactions_per_block s)"
    and "previous_block_timestamp (ctx s) \<noteq> - 1 \<Longrightarrow> previous_block_timestamp (ctx s) < ts"
  shows "refines once W s (snd (and_then (modify_ctx (\<lambda>c. (mark_available_transactions hs
                 (c \<lparr> proposed_timestamp := ts, proposed_tx_hashes := hs \<rparr>)) \<lparr> nonce := no \<rparr>)) (\<lambda>_.
     and_then svc_my_index (\<lambda>my s.
     and_then (create_payload W PrepareRequest (prepare_request_serialize (msg my s))) (\<lambda>p s.
     and_then (modify_ctx (\<lambda>c. c \<lparr>
                 preparation_hash := (case dbft_payload_hash W s p of
                                        Inr h \<Rightarrow> Some h | Inl _ \<Rightarrow> preparation_hash c),
                 prepare_request_invocation :=
                   (if p_witness p = [] then None
                    else Some (invocation_script_from_signature (p_witness p))) \<rparr>)) (\<lambda>_.
     and_then (modify_ctx (\<lambda>c. c \<lparr> proposed_block_hash := Some (compute_header_hash W (version c)
                 (prev_hash c) (compute_merkle_root W (proposed_tx_hashes c)) ts no
                 (block_index c) (primary_index c) (next_consensus c)) \<rparr>)) (\<lambda>_.
     and_then (\<lambda>s. (Inr (), revalidate_current_view_commits W s)) (\<lambda>_.
     and_then (broadcast W p) (\<lambda>_.
     modify_ctx (\<lambda>c. c \<lparr> prepare_request_received := True \<rparr>))))) s) s)) s))"
proof -
  define c where "c = (mark_available_transactions hs ((ctx s) \<lparr> proposed_timestamp := ts, proposed_tx_hashes := hs \<rparr>)) \<lparr> nonce := no \<rparr>"
  have my: "my_index c = Some my" using assms(2) by (simp add: c_def mark_available_transactions_def)
  obtain p n where p: "create_payload W PrepareRequest (prepare_request_serialize (msg my (s \<lparr> ctx := c \<rparr>))) (s \<lparr> ctx := c \<rparr>)
      = (Inr p, s \<lparr> ctx := c, calls := n \<rparr>)"
    using create_payload_ok [of "s \<lparr> ctx := c \<rparr>" my W PrepareRequest] my by (auto simp: c_def)
  define u where "u = s \<lparr> calls := n \<rparr>"
  define d where "d = c \<lparr> preparation_hash := (case dbft_payload_hash W (s \<lparr> ctx := c, calls := n \<rparr>) p of
       Inr h \<Rightarrow> Some h | Inl _ \<Rightarrow> preparation_hash c),
     prepare_request_invocation := (if p_witness p = [] then None
       else Some (invocation_script_from_signature (p_witness p))) \<rparr>"
  define e where "e = d \<lparr> proposed_block_hash := Some (compute_header_hash W (version d) (prev_hash d)
     (compute_merkle_root W (proposed_tx_hashes d)) ts no (block_index d) (primary_index d) (next_consensus d)) \<rparr>"
  have core: "same_core (install W (prepare_request_received (ctx u)) ts no hs (available_tx_hashes c)
      (hm_retain (\<lambda>_ _. True) (prepare_responses (ctx u))) (ctx u)) e"
    by (simp add: same_core_def install_def e_def d_def c_def u_def mark_available_transactions_def
        context_header_hash_def primary_index_def validator_count_def Let_def)
  have type: "p_message_type p \<noteq> Commit" using create_payload_Inr(2) [OF p] by simp
  have main: "refines once W u (snd (and_then (\<lambda>s. (Inr (), revalidate_current_view_commits W s)) (\<lambda>_.
     and_then (broadcast W p) (\<lambda>_. modify_ctx (\<lambda>c. c \<lparr> prepare_request_received := True \<rparr>))) (u \<lparr> ctx := e \<rparr>)))"
    using assms mark_available_distinct [of hs "(ctx s) \<lparr> proposed_timestamp := ts, proposed_tx_hashes := hs \<rparr>"]
    by (intro install_then [OF _ _ _ _ _ core] broadcast_then [OF type])
      (auto simp: u_def c_def modify_ctx_def intro!: refines1 round_step.received)
  have "refines once W s (snd (and_then (\<lambda>s. (Inr (), revalidate_current_view_commits W s)) (\<lambda>_.
     and_then (broadcast W p) (\<lambda>_. modify_ctx (\<lambda>c. c \<lparr> prepare_request_received := True \<rparr>))) (s \<lparr> ctx := c, calls := n, ctx := e \<rparr>)))"
    using refines_then [OF _ main, of s] by (simp add: u_def)
  then show ?thesis using p my
    by (simp only: modify_and_then my_index_and_then and_then_Inr c_def [symmetric] d_def [symmetric] e_def [symmetric]
        ctx_of_update)
qed

lemma propose_refines:
  assumes "prepare_request_received (ctx s) \<Longrightarrow> \<not> once" "is_primary (ctx s)" "my_index (ctx s) = Some my"
  shows "refines once W s (snd (propose W hs s))"
  unfolding propose_def Let_def
  by (rule clock_then, rule modify_then, simp add: local_refines same_core_def,
      rule nonce_then, rule install_own_proposal [where my = my])
    (use assms in \<open>auto simp: is_primary_def primary_index_def validator_count_def intro: prepare_request_timestamp_later\<close>)

section \<open>Recovery messages\<close>

lemma reprocess_refines: "refines once W s (reprocess_recovery_payload W p s)"
  unfolding reprocess_recovery_payload_def
  by (cases "p_message_type p")
    (auto intro: on_change_view_refines on_prepare_request_refines on_prepare_response_refines on_commit_refines)

lemma apply_compact_refines:
  "refines once W s (apply_change_view_compact W p cv s)"
  "refines once W s (apply_prepare_request W recovery s)"
  "refines once W s (apply_preparation_compact W p primary h prep s)"
  "refines once W s (apply_commit_compact W p cm s)"
  by (auto simp: apply_change_view_compact_def apply_prepare_request_def apply_preparation_compact_def
      apply_commit_compact_def Let_def intro: reprocess_refines split: option.split)

lemma apply_preparations_refines: "refines once W s (apply_preparations W p recovery s)"
proof -
  define t where "t = apply_prepare_request W recovery s"
  define u where "u = (case (preparation_hash (ctx t), rm_preparation_hash recovery) of
      (None, Some h) \<Rightarrow> t \<lparr> ctx := (ctx t) \<lparr> preparation_hash := Some h \<rparr> \<rparr> | _ \<Rightarrow> t)"
  have "refines once W s t" unfolding t_def by (rule apply_compact_refines)
  moreover have "refines once W t u"
    by (auto simp: u_def same_core_def intro!: local_refines split: option.split)
  moreover have "refines once W u (fold (apply_preparation_compact W p primary h) qs u)" for primary h qs
    by (intro rs.fold_contract apply_compact_refines)
  ultimately show ?thesis
    unfolding apply_preparations_def Let_def t_def [symmetric] u_def [symmetric]
    by (auto intro: refines_then split: option.split)
qed

lemma apply_recovery_refines: "refines once W s (apply_recovery W p recovery s)"
proof -
  have folds: "refines once W t (fold (apply_change_view_compact W p) xs t)"
    "refines once W t (fold (apply_commit_compact W p) ys t)" for t xs ys
    by (intro rs.fold_contract apply_compact_refines)+
  show ?thesis
    by (auto simp: apply_recovery_def Let_def intro: folds apply_preparations_refines
        refines_then [OF apply_preparations_refines])
qed

lemma on_recovery_message_refines: "refines once W s (snd (on_recovery_message W p s))"
  unfolding on_recovery_message_def
  by (intro pure_then check_witness_state) (auto intro!: pure_then apply_recovery_refines)

section \<open>Entry points\<close>

lemma initiate_proposal_refines: "refines once W s (snd (initiate_proposal W ts s))"
  unfolding initiate_proposal_def
  by (auto intro!: modify_then local_refines send_event_refines simp: same_core_def)

lemma available_refines:
  "refines once W s (s \<lparr> ctx := mark_available_transactions hs (ctx s) \<rparr>)"
  using mark_available_distinct [of hs "ctx s"]
  by (intro refines1 round_step.available [where av = "available_tx_hashes (mark_available_transactions hs (ctx s))"])
    (auto simp: mark_available_transactions_def)

lemma on_transactions_received_refines:
  assumes "once \<Longrightarrow> is_primary (ctx s) \<Longrightarrow> \<not> prepare_request_received (ctx s)"
  shows "refines once W s (snd (on_transactions_received W hs s))"
  unfolding on_transactions_received_def
  using assms
  by (auto intro!: propose_refines send_prepare_response_refines modify_then available_refines simp: is_primary_def)

lemma backup_has_peers: "is_backup c \<Longrightarrow> has_peers c"
  using single_primary [of c] by (auto simp: is_backup_def has_peers_def split: option.splits)

lemma mark_transaction_available_refines:
  "refines once W s (s \<lparr> ctx := snd (mark_transaction_available h (ctx s)) \<rparr>)"
proof (cases "tidy s \<and> h \<in> set (proposed_tx_hashes (ctx s))")
  case True
  then show ?thesis
    by (intro refines1 round_step.available [where av = "hs_insert h (available_tx_hashes (ctx s))"])
      (auto simp: mark_transaction_available_def hs_insert_def hs_contains_def tidy_def)
qed (auto simp: mark_transaction_available_def refines_untidy)

lemma on_transaction_refines: "refines once W s (snd (on_transaction W h s))"
proof -
  have respond: "refines once W t (snd (and_then (send_prepare_response W) (\<lambda>_. check_prepare_responses W) t))"
    if "is_backup (ctx t)" for t
  proof (cases "tidy t")
    case True
    show ?thesis
    proof (rule rs.and_then_contract [OF send_prepare_response_refines])
      fix x u assume "send_prepare_response W t = (Inr x, u)"
      then have "rounds once W t u" using send_prepare_response_refines [of once W t] True by (simp add: refines_def)
      then have "has_peers (ctx u)"
        using same_round_rounds backup_has_peers [OF that] by (auto simp: same_round_def has_peers_def validator_count_def)
      then show "refines once W u (snd (check_prepare_responses W u))" by (rule check_prepare_responses_refines)
    qed
  qed (rule refines_untidy)
  have "is_backup (snd (mark_transaction_available h c)) = is_backup c" for c
    by (simp add: mark_transaction_available_def is_backup_def primary_index_def validator_count_def
        split: option.split)
  then show ?thesis
    using mark_transaction_available_refines [of once W s h] respond [of "s \<lparr> ctx := snd (mark_transaction_available h (ctx s)) \<rparr>"]
    by (auto simp: on_transaction_def ok_def intro: refines_then split: prod.split)
qed

lemma on_timer_tick_refines: "refines once W s (snd (on_timer_tick W ts s))"
proof -
  have "refines once W s (snd (and_then (resend_recovery_message W) (\<lambda>_.
      modify_ctx (\<lambda>c. c \<lparr> commit_recovery_sent_at := Some ts \<rparr>)) s))"
    by (rule rs.and_then_contract [OF resend_recovery_message_refines]) (simp add: modify_refines same_core_def)
  then show ?thesis
    unfolding on_timer_tick_def Let_def
    by (auto intro: initiate_proposal_refines request_change_view_refines)
qed

lemma mark_message_seen_core [simp]: "same_core c (mark_message_seen put h c)"
  by (simp add: mark_message_seen_def same_core_def)

lemma process_message_refines: "refines once W s (snd (process_message W p s))"
proof -
  define handle where "handle = (case p_message_type p of
              PrepareRequest \<Rightarrow> on_prepare_request W p
            | PrepareResponse \<Rightarrow> on_prepare_response W p
            | Commit \<Rightarrow> on_commit W p
            | ChangeView \<Rightarrow> on_change_view W p
            | RecoveryRequest \<Rightarrow> on_recovery_request W p
            | RecoveryMessage \<Rightarrow> on_recovery_message W p)"
  have handler: "refines once W t (snd (handle t))" for t
    by (auto simp: handle_def intro: on_prepare_request_refines on_prepare_response_refines on_commit_refines
        on_change_view_refines on_recovery_request_refines on_recovery_message_refines
        split: consensus_message_type.split)
  have dispatch: "refines once W t (snd (and_then handle (\<lambda>_. modify_ctx (mark_message_seen (lru_insert W) h)) t))" for t h
    by (rule rs.and_then_contract [OF handler]) (simp add: modify_refines)
  have "refines once W t (snd (and_then (modify_ctx (update_last_seen_message i b)) (\<lambda>_ s.
      if P s then ok () s else and_then handle (\<lambda>_. modify_ctx (mark_message_seen (lru_insert W) h)) s) t))" for t i b P h
    by (rule modify_then) (auto intro: local_refines dispatch simp: update_last_seen_message_def same_core_def)
  then show ?thesis
    unfolding process_message_def handle_def [symmetric]
    by (auto intro!: pure_then)
qed

end
