(* ===== verification/Dbft_Safety.thy ===== *)
theory Dbft_Safety
  imports Dbft_Refinement
begin

text \<open>
  Safety of the dBFT service. The public operations of the service are the datatype
  \<open>operation\<close>; a height is a sequence of those that do not start, resume or reconfigure the
  service, after \<open>start_with_block_context\<close>. The invariants are proved for the abstract protocol of
  \<open>Dbft_Round\<close>, rule by rule, and carried to the service by the refinement.
\<close>

section \<open>Runs of the service\<close>

text \<open>
  The public operations of \<^verbatim>\<open>ConsensusService\<close> that take \<^verbatim>\<open>&mut self\<close>, and what each of them does to
  the state; their results are dropped here.
\<close>

datatype operation =
    ProcessMessage consensus_payload
  | OnTimerTick u64
  | OnTransactionsReceived "uint256 list"
  | OnTransaction uint256
  | RequestChangeView change_view_reason u64
  | RequestRecovery
  | SetExpectedBlockTime u64
  | SetMaxBlockPolicy u32 int
  | RecordTransactionMetrics uint256 nat int
  | SetMaxTransactionsPerBlock u32
  | Start u32 u64 uint256 u32
  | StartWithPreviousTimestamp u32 u64 uint256 u64 u32
  | StartWithBlockContext u32 u64 uint256 u64 uint160 u32
  | Resume u64 uint256 u32
  | ResumeWithNextConsensus u64 uint256 uint160 u32
  | TryLoadAndResume u32 u64 uint256 uint160 u32
  | UpdateValidators "validator_info list" "byte option"
  | SetPrivateKey bytes
  | SetSigner bool
  | SetStatePath "string option"

fun perform :: "env \<Rightarrow> operation \<Rightarrow> consensus_service \<Rightarrow> consensus_service" where
  "perform W (ProcessMessage p) s = snd (process_message W p s)"
| "perform W (OnTimerTick ts) s = snd (on_timer_tick W ts s)"
| "perform W (OnTransactionsReceived hs) s = snd (on_transactions_received W hs s)"
| "perform W (OnTransaction h) s = snd (on_transaction W h s)"
| "perform W (RequestChangeView reason ts) s = snd (request_change_view W reason ts s)"
| "perform W RequestRecovery s = snd (request_recovery W s)"
| "perform W (SetExpectedBlockTime ms) s = snd (set_expected_block_time ms s)"
| "perform W (SetMaxBlockPolicy sz fee) s = snd (svc_set_max_block_policy sz fee s)"
| "perform W (RecordTransactionMetrics h sz fee) s = snd (svc_record_transaction_metrics h sz fee s)"
| "perform W (SetMaxTransactionsPerBlock n) s = snd (set_max_transactions_per_block n s)"
| "perform W (Start idx ts prev ver) s = snd (start W idx ts prev ver s)"
| "perform W (StartWithPreviousTimestamp idx ts prev prev_ts ver) s =
     snd (start_with_previous_timestamp W idx ts prev prev_ts ver s)"
| "perform W (StartWithBlockContext idx ts prev prev_ts nxt ver) s =
     snd (start_with_block_context idx ts prev prev_ts nxt ver s)"
| "perform W (Resume ts prev ver) s = snd (resume W ts prev ver s)"
| "perform W (ResumeWithNextConsensus ts prev nxt ver) s = snd (resume_with_next_consensus W ts prev nxt ver s)"
| "perform W (TryLoadAndResume idx ts prev nxt ver) s = snd (try_load_and_resume W idx ts prev nxt ver s)"
| "perform W (UpdateValidators vs my) s = snd (update_validators vs my s)"
| "perform W (SetPrivateKey key) s = snd (set_private_key key s)"
| "perform W (SetSigner b) s = snd (set_signer b s)"
| "perform W (SetStatePath p) s = snd (set_state_path p s)"

text \<open>
  A height is worked on from one start to the next. The operations that start or resume a height
  and those that replace the validators, the key, the signer or the state file end it.
\<close>

fun within_height :: "operation \<Rightarrow> bool" where
  "within_height (Start _ _ _ _) = False"
| "within_height (StartWithPreviousTimestamp _ _ _ _ _) = False"
| "within_height (StartWithBlockContext _ _ _ _ _ _) = False"
| "within_height (Resume _ _ _) = False"
| "within_height (ResumeWithNextConsensus _ _ _ _) = False"
| "within_height (TryLoadAndResume _ _ _ _ _) = False"
| "within_height (UpdateValidators _ _) = False"
| "within_height (SetPrivateKey _) = False"
| "within_height (SetSigner _) = False"
| "within_height (SetStatePath _) = False"
| "within_height _ = True"

text \<open>
  What a careful host observes in addition: it does not hand transactions to a primary that has
  proposed in this view. The service does not check this itself.
\<close>

fun orderly :: "operation \<Rightarrow> consensus_service \<Rightarrow> bool" where
  "orderly (OnTransactionsReceived _) s = (\<not> is_primary (ctx s) \<or> \<not> prepare_request_received (ctx s))"
| "orderly _ s = True"

inductive host_step :: "bool \<Rightarrow> env \<Rightarrow> consensus_service \<Rightarrow> consensus_service \<Rightarrow> bool" for once W where
  operate: "within_height op \<Longrightarrow> (once \<Longrightarrow> orderly op s) \<Longrightarrow> host_step once W s (perform W op s)"

text \<open>Any operation of a height, and those of a careful host.\<close>

abbreviation node_step :: "env \<Rightarrow> consensus_service \<Rightarrow> consensus_service \<Rightarrow> bool" where
  "node_step \<equiv> host_step False"

abbreviation orderly_step :: "env \<Rightarrow> consensus_service \<Rightarrow> consensus_service \<Rightarrow> bool" where
  "orderly_step \<equiv> host_step True"

abbreviation node_run :: "env \<Rightarrow> consensus_service \<Rightarrow> consensus_service \<Rightarrow> bool" where
  "node_run W \<equiv> (node_step W)\<^sup>*\<^sup>*"

abbreviation orderly_run :: "env \<Rightarrow> consensus_service \<Rightarrow> consensus_service \<Rightarrow> bool" where
  "orderly_run W \<equiv> (orderly_step W)\<^sup>*\<^sup>*"

lemma set_limit_refines: "refines once W s (snd (set_max_transactions_per_block n s))"
  by (simp add: set_max_transactions_per_block_def refines1 round_step.limit)

lemma perform_refines:
  assumes "within_height op" "once \<Longrightarrow> orderly op s"
  shows "refines once W s (perform W op s)"
  using assms
  by (cases op)
    (auto simp: set_expected_block_time_def svc_set_max_block_policy_def set_max_block_policy_def
      svc_record_transaction_metrics_def record_transaction_metrics_def same_core_def
      intro!: process_message_refines on_timer_tick_refines on_transactions_received_refines
      on_transaction_refines request_change_view_refines request_recovery_refines modify_refines set_limit_refines)

lemma host_step_refines: "host_step once W s t \<Longrightarrow> refines once W s t"
  by (induction rule: host_step.induct) (rule perform_refines)

lemma host_run_rounds: "(host_step once W)\<^sup>*\<^sup>* s t \<Longrightarrow> tidy s \<Longrightarrow> rounds once W s t"
proof (induction rule: rtranclp_induct)
  case (step t u)
  then have "rounds once W t u" using host_step_refines tidy_rounds by (auto simp: refines_def)
  with step show ?case by (meson rtranclp_trans)
qed simp

section \<open>What revalidation keeps\<close>

definition stale :: "env \<Rightarrow> consensus_service \<Rightarrow> uint256 \<Rightarrow> byte \<Rightarrow> bool" where
  "stale W s h i =
     (case hm_get (commits (ctx s)) i of
        Some sig \<Rightarrow> hm_get (commit_view_numbers (ctx s)) i = Some (view_number (ctx s))
          \<and> \<not> verify_signature W s (block_sign_data s h) sig i
      | None \<Rightarrow> False)"

lemma verify_signature_cong:
  "validators (ctx s) = validators (ctx t) \<Longrightarrow> verify_signature W s = verify_signature W t"
  by (simp add: fun_eq_iff verify_signature_def get_validator_def)

definition pruned :: "env \<Rightarrow> consensus_service \<Rightarrow> uint256 \<Rightarrow> byte set \<Rightarrow> consensus_service \<Rightarrow> bool" where
  "pruned W s h D t \<longleftrightarrow> validators (ctx t) = validators (ctx s)
     \<and> (\<forall>i. hm_get (commits (ctx t)) i = (if i \<in> D \<and> stale W s h i then None else hm_get (commits (ctx s)) i))
     \<and> (\<forall>i. hm_get (commit_view_numbers (ctx t)) i =
            (if i \<in> D \<and> stale W s h i then None else hm_get (commit_view_numbers (ctx s)) i))
     \<and> (hm_wf (commits (ctx s)) \<longrightarrow> hm_wf (commits (ctx t)))
     \<and> (hm_wf (commit_view_numbers (ctx s)) \<longrightarrow> hm_wf (commit_view_numbers (ctx t)))"

lemma pruned_step:
  assumes "pruned W s h D t" and "hm_get (commit_view_numbers (ctx s)) v = Some (view_number (ctx s))"
    and "hm_contains (commits (ctx s)) v"
  shows "pruned W s h (insert v D)
     (if (case hm_get (commits (ctx t)) v of
            Some signature \<Rightarrow> verify_signature W t (block_sign_data s h) signature v | None \<Rightarrow> False)
      then t else t \<lparr> ctx := remove_commit v (ctx t) \<rparr>)"
proof -
  have eq: "verify_signature W t = verify_signature W s"
    using assms(1) by (intro verify_signature_cong) (simp add: pruned_def)
  show ?thesis
    using assms eq
    by (auto simp: pruned_def stale_def remove_commit_def hm_contains_def split: option.splits if_splits)
qed

lemma revalidate_pruned:
  assumes "proposed_block_hash (ctx s) = Some h"
  shows "pruned W s h UNIV (revalidate_current_view_commits W s)"
proof -
  define vs where "vs = filter (\<lambda>i. hm_get (commit_view_numbers (ctx s)) i = Some (view_number (ctx s)))
      (hm_keys (commits (ctx s)))"
  define f where "f = (\<lambda>v t. if (case hm_get (commits (ctx t)) v of
      Some signature \<Rightarrow> verify_signature W t (block_sign_data s h) signature v | None \<Rightarrow> False)
      then t else t \<lparr> ctx := remove_commit v (ctx t) \<rparr>)"
  have "pruned W s h (D \<union> set ws) (fold f ws t)" if "pruned W s h D t" "set ws \<subseteq> set vs" for ws D t
    using that
  proof (induction ws arbitrary: D t)
    case (Cons v ws)
    then have "pruned W s h (insert v D) (f v t)"
      unfolding f_def by (intro pruned_step) (auto simp: vs_def hm_contains_keys)
    from Cons.IH [OF this] Cons.prems show ?case by simp
  qed simp
  from this [of "{}" s vs] have "pruned W s h (set vs) (fold f vs s)" by (simp add: pruned_def)
  moreover have "stale W s h i \<Longrightarrow> i \<in> set vs" for i
    using hm_contains_keys [of "commits (ctx s)" i]
    by (auto simp: stale_def vs_def hm_contains_def split: option.splits)
  ultimately show ?thesis
    using assms
    by (auto simp: revalidate_current_view_commits_def Let_def vs_def f_def pruned_def)
qed

section \<open>Well-formed round states\<close>

definition wf_context :: "env \<Rightarrow> consensus_context \<Rightarrow> bool" where
  "wf_context W c \<longleftrightarrow>
     hm_wf (prepare_responses c) \<and> hm_wf (commits c) \<and> hm_wf (commit_view_numbers c) \<and> hm_wf (change_views c)
     \<and> (\<forall>i. hm_contains (prepare_responses c) i \<longrightarrow> unat i < validator_count c \<and> i \<noteq> primary_index c)
     \<and> (\<forall>i. hm_contains (commits c) i \<longrightarrow> unat i < validator_count c)
     \<and> (\<forall>i. hm_contains (change_views c) i \<longrightarrow> unat i < validator_count c)
     \<and> (\<forall>i. hm_contains (commit_view_numbers c) i \<longleftrightarrow> hm_contains (commits c) i)
     \<and> (prepare_request_received c \<longrightarrow> proposed_block_hash c \<noteq> None)
     \<and> (\<forall>h. proposed_block_hash c = Some h \<longrightarrow> h = context_header_hash W c)
     \<and> distinct (available_tx_hashes c) \<and> set (available_tx_hashes c) \<subseteq> set (proposed_tx_hashes c)"

lemma wf_context_core: "same_core c d \<Longrightarrow> wf_context W d \<longleftrightarrow> wf_context W c"
  by (simp add: wf_context_def same_core_derived) (simp add: same_core_def)

lemma context_update_derived [simp]:
  "primary_index (c \<lparr> change_views := a \<rparr>) = primary_index c"
  "primary_index (c \<lparr> prepare_responses := b \<rparr>) = primary_index c"
  "primary_index (c \<lparr> available_tx_hashes := av \<rparr>) = primary_index c"
  "primary_index (c \<lparr> prepare_request_received := r \<rparr>) = primary_index c"
  "primary_index (c \<lparr> round_state := st \<rparr>) = primary_index c"
  "primary_index (c \<lparr> commits := cs \<rparr>) = primary_index c"
  "primary_index (c \<lparr> commit_view_numbers := vs \<rparr>) = primary_index c"
  "primary_index (c \<lparr> proposed_timestamp := ts \<rparr>) = primary_index c"
  "primary_index (c \<lparr> nonce := no \<rparr>) = primary_index c"
  "primary_index (c \<lparr> proposed_tx_hashes := hs \<rparr>) = primary_index c"
  "primary_index (install W r' ts no hs av rs c) = primary_index c"
  by (simp_all add: primary_index_def validator_count_def install_def Let_def)

lemma wf_context_simps [simp]:
  "wf_context W (c \<lparr> round_state := st \<rparr>) \<longleftrightarrow> wf_context W c"
  by (simp add: wf_context_def context_header_hash_def validator_count_def)

lemma hm_contains_retain: "hm_contains (hm_retain P m) i \<Longrightarrow> hm_contains m i"
  using hm_keys_retain_subset [of P m] by (auto simp: hm_contains_keys)

lemma pruned_wf_context:
  assumes "pruned W s h UNIV t" and "wf_context W (ctx s)"
    and "same_core ((ctx s) \<lparr> commits := commits (ctx t), commit_view_numbers := commit_view_numbers (ctx t) \<rparr>) (ctx t)"
  shows "wf_context W (ctx t)"
proof -
  have "hm_contains (commits (ctx t)) i \<longleftrightarrow> hm_contains (commits (ctx s)) i \<and> \<not> stale W s h i"
    "hm_contains (commit_view_numbers (ctx t)) i \<longleftrightarrow> hm_contains (commit_view_numbers (ctx s)) i \<and> \<not> stale W s h i" for i
    using assms(1) by (auto simp: pruned_def hm_contains_def)
  moreover have "hm_wf (commits (ctx t))" "hm_wf (commit_view_numbers (ctx t))"
    using assms(1,2) by (auto simp: pruned_def wf_context_def)
  ultimately show ?thesis
    using assms(2) wf_context_core [OF assms(3), of W]
    by (simp add: wf_context_def validator_count_def context_header_hash_def)
qed

lemma wf_context_step: "round_step once W s t \<Longrightarrow> wf_context W (ctx s) \<Longrightarrow> wf_context W (ctx t)"
proof (induction rule: round_step.induct)
  case (local s c)
  then show ?case using wf_context_core by simp
next
  case (vote i s x c)
  then show ?case
    using wf_context_core [OF vote.hyps(4), of W]
    by (simp add: wf_context_def validator_count_def context_header_hash_def)
next
  case (response i s x c)
  then show ?case
    using wf_context_core [OF response.hyps(3), of W]
    by (simp add: wf_context_def validator_count_def context_header_hash_def)
next
  case (commit i s view sig c)
  then show ?case
    using wf_context_core [OF commit.hyps(4), of W]
    by (simp add: wf_context_def validator_count_def context_header_hash_def record_commit_def)
next
  case (new_view s v ts c)
  then show ?case
    using wf_context_core [OF new_view.hyps(4), of W]
    by (simp add: wf_context_def validator_count_def reset_for_new_view_def Let_def)
next
  case (propose s available hs ts r no P c)
  have "wf_context W (install W r ts no hs available (hm_retain P (prepare_responses (ctx s))) (ctx s))"
    using propose.hyps(1-5) propose.prems hm_contains_retain [of P "prepare_responses (ctx s)"]
    by (simp add: wf_context_def validator_count_def context_header_hash_def)
      (auto simp: install_def Let_def validator_count_def context_header_hash_def)
  then have wf: "wf_context W c" using wf_context_core [OF propose.hyps(6)] by simp
  have "proposed_block_hash c \<noteq> None" using propose.hyps(6) by (simp add: same_core_def install_def Let_def)
  then obtain h where h: "proposed_block_hash (ctx (s \<lparr> ctx := c \<rparr>)) = Some h" by auto
  show ?case
    using pruned_wf_context [OF revalidate_pruned [OF h, of W]] revalidate_frame [of W "s \<lparr> ctx := c \<rparr>"] wf by auto
next
  case (received s c)
  then show ?case
    using wf_context_core [OF received.hyps(2), of W]
    by (simp add: wf_context_def validator_count_def context_header_hash_def)
next
  case (available av s c)
  then show ?case
    using wf_context_core [OF available.hyps(3), of W]
    by (simp add: wf_context_def validator_count_def context_header_hash_def)
next
  case (own_commit s my h sig c evs d n)
  then show ?case
    using wf_context_core [OF own_commit.hyps(6), of W]
    by (simp add: wf_context_def validator_count_def context_header_hash_def record_commit_def)
qed simp_all

section \<open>Certificates and the commit lock\<close>

text \<open>
  A commit is backed for a block hash when its signature was checked, or when it is the
  service's own signature over that hash.
\<close>

definition backed :: "env \<Rightarrow> consensus_service \<Rightarrow> consensus_context \<Rightarrow> uint256 \<Rightarrow> byte \<Rightarrow> bytes \<Rightarrow> bool" where
  "backed W s c h i sig \<longleftrightarrow> verify_signature W (s \<lparr> ctx := c \<rparr>) (block_sign_data s h) sig i
     \<or> my_index c = Some i \<and> own_signature W s (block_sign_data s h) sig"

definition certified :: "env \<Rightarrow> consensus_service \<Rightarrow> consensus_context \<Rightarrow> bool" where
  "certified W s c \<longleftrightarrow> (\<forall>h i sig. proposed_block_hash c = Some h \<longrightarrow> hm_get (commits c) i = Some sig \<longrightarrow>
     hm_get (commit_view_numbers c) i = Some (view_number c) \<longrightarrow> backed W s c h i sig)"

lemma backed_cong:
  assumes "validators d = validators c" "my_index d = my_index c"
    and "network t = network s" "private_key t = private_key s" "signer t = signer s"
  shows "backed W t d = backed W s c"
  using assms verify_signature_cong [of "t \<lparr> ctx := d \<rparr>" "s \<lparr> ctx := c \<rparr>" W]
  by (simp add: fun_eq_iff backed_def block_sign_data_def own_signature_def)

lemma certified_frame:
  assumes "validators d = validators c" "my_index d = my_index c" "proposed_block_hash d = proposed_block_hash c"
    and "commits d = commits c" "commit_view_numbers d = commit_view_numbers c" "view_number d = view_number c"
    and "network t = network s" "private_key t = private_key s" "signer t = signer s"
  shows "certified W t d = certified W s c"
  using assms backed_cong [OF assms(1,2,7-9), of W] by (simp add: certified_def)

lemma certified_core:
  assumes "same_core c d" and "network t = network s" "private_key t = private_key s" "signer t = signer s"
  shows "certified W t d = certified W s c"
  using assms by (intro certified_frame) (simp_all add: same_core_def)

lemma unwrap_hash_Some [simp]: "unwrap_hash (Some h) = h"
  by (simp add: unwrap_hash_def)

lemma certified_step:
  assumes "round_step once W s t" and "wf_context W (ctx s)" and "certified W s (ctx s)"
  shows "certified W t (ctx t)"
  using assms
proof (induction rule: round_step.induct)
  case (commit i s view sig c)
  have "backed W s (record_commit i view sig (ctx s)) = backed W s (ctx s)"
    by (intro backed_cong) (simp_all add: record_commit_def)
  moreover have "backed W s (ctx s) h i sig" if "view = view_number (ctx s)" "proposed_block_hash (ctx s) = Some h" for h
    using commit.hyps(3) [OF that] by (simp add: backed_def)
  ultimately have "certified W s (record_commit i view sig (ctx s))"
    using commit.prems by (auto simp: certified_def record_commit_def)
  then show ?case using certified_core [OF commit.hyps(4)] by simp
next
  case (propose s available hs ts r no P c)
  have "proposed_block_hash c \<noteq> None" using propose.hyps(6) by (simp add: same_core_def install_def Let_def)
  then obtain h where h: "proposed_block_hash (ctx (s \<lparr> ctx := c \<rparr>)) = Some h" by auto
  obtain d where d: "revalidate_current_view_commits W (s \<lparr> ctx := c \<rparr>) = s \<lparr> ctx := d \<rparr>"
    "same_core (c \<lparr> commits := commits d, commit_view_numbers := commit_view_numbers d \<rparr>) d"
    using revalidate_frame [of W "s \<lparr> ctx := c \<rparr>"] by auto
  have "pruned W (s \<lparr> ctx := c \<rparr>) h UNIV (s \<lparr> ctx := d \<rparr>)" using revalidate_pruned [OF h, of W] d by simp
  moreover have "verify_signature W (s \<lparr> ctx := d \<rparr>) = verify_signature W (s \<lparr> ctx := c \<rparr>)"
    using d by (intro verify_signature_cong) (simp add: same_core_def)
  ultimately show ?case
    using d h
    by (auto simp: certified_def backed_def pruned_def stale_def same_core_def block_sign_data_def
        split: if_splits option.splits)
next
  case (own_commit s my h sig c evs d n)
  have hash: "proposed_block_hash (ctx s) = Some h"
    using own_commit.hyps(1,4) own_commit.prems(1) by (auto simp: commit_gate_def wf_context_def)
  have "backed W s (record_commit my (view_number (ctx s)) sig (ctx s)) = backed W s (ctx s)"
    by (intro backed_cong) (simp_all add: record_commit_def)
  moreover have "backed W s (ctx s) h my sig" using own_commit.hyps(2,5) by (simp add: backed_def)
  ultimately have "certified W s (record_commit my (view_number (ctx s)) sig (ctx s))"
    using own_commit.prems(2) hash by (auto simp: certified_def record_commit_def)
  then show ?case using certified_core [OF own_commit.hyps(6)] by simp
next
  case (new_view s v ts c)
  have "certified W s (reset_for_new_view v ts (ctx s))"
    by (simp add: certified_def reset_for_new_view_def Let_def)
  then show ?case using certified_core [OF new_view.hyps(4)] by simp
next
  case (local s c)
  then show ?case using certified_core [OF local.hyps(1)] by simp
qed (auto simp: same_core_def intro: certified_frame [THEN iffD1, rotated -1])

definition locked :: "consensus_service \<Rightarrow> bool" where
  "locked s \<longleftrightarrow> signed_blocks s = [] \<or>
     (\<exists>v h my. signed_blocks s = [(block_index (ctx s), v, h)] \<and> my_index (ctx s) = Some my
        \<and> v \<le> view_number (ctx s)
        \<and> (v = view_number (ctx s) \<longrightarrow> prepare_request_received (ctx s) \<and> proposed_block_hash (ctx s) = Some h)
        \<and> hm_contains (commits (ctx s)) my \<and> hm_get (commit_view_numbers (ctx s)) my = Some v)"

lemma locked_recorded: "locked s \<Longrightarrow> signed_blocks s \<noteq> [] \<Longrightarrow> own_commit_recorded (ctx s)"
  by (auto simp: locked_def own_commit_recorded_def)

lemma locked_frame:
  assumes "locked s" "signed_blocks t = signed_blocks s"
    and "block_index (ctx t) = block_index (ctx s)" "my_index (ctx t) = my_index (ctx s)"
    and "\<And>v h my. signed_blocks s = [(block_index (ctx s), v, h)] \<Longrightarrow> my_index (ctx s) = Some my \<Longrightarrow>
      v \<le> view_number (ctx s) \<Longrightarrow>
      (v = view_number (ctx s) \<Longrightarrow> prepare_request_received (ctx s) \<and> proposed_block_hash (ctx s) = Some h) \<Longrightarrow>
      hm_contains (commits (ctx s)) my \<Longrightarrow> hm_get (commit_view_numbers (ctx s)) my = Some v \<Longrightarrow>
      v \<le> view_number (ctx t)
      \<and> (v = view_number (ctx t) \<longrightarrow> prepare_request_received (ctx t) \<and> proposed_block_hash (ctx t) = Some h)
      \<and> hm_contains (commits (ctx t)) my \<and> hm_get (commit_view_numbers (ctx t)) my = Some v"
  shows "locked t"
proof (cases "signed_blocks s = []")
  case True
  with assms(2) show ?thesis by (simp add: locked_def)
next
  case False
  with assms(1) obtain v h my where old: "signed_blocks s = [(block_index (ctx s), v, h)]"
      "my_index (ctx s) = Some my" "v \<le> view_number (ctx s)"
      "v = view_number (ctx s) \<longrightarrow> prepare_request_received (ctx s) \<and> proposed_block_hash (ctx s) = Some h"
      "hm_contains (commits (ctx s)) my" "hm_get (commit_view_numbers (ctx s)) my = Some v"
    by (auto simp: locked_def)
  have "v \<le> view_number (ctx t)
      \<and> (v = view_number (ctx t) \<longrightarrow> prepare_request_received (ctx t) \<and> proposed_block_hash (ctx t) = Some h)
      \<and> hm_contains (commits (ctx t)) my \<and> hm_get (commit_view_numbers (ctx t)) my = Some v"
    using old by (intro assms(5)) simp_all
  then show ?thesis using old(1,2) assms(2-4) unfolding locked_def by simp
qed

lemma locked_step:
  assumes "round_step True W s t" and "wf_context W (ctx s)" and "listed (ctx s)" and "locked s"
  shows "locked t"
  using assms
proof (induction rule: round_step.induct)
  case (commit i s view sig c)
  show ?case
    using commit by (intro locked_frame [OF commit.prems(3)]) (auto simp: same_core_def record_commit_def)
next
  case (new_view s v ts c)
  show ?case
    using new_view
    by (intro locked_frame [OF new_view.prems(3)]) (auto simp: same_core_def reset_for_new_view_def Let_def)
next
  case (propose s available hs ts r no P c)
  have "proposed_block_hash c \<noteq> None" using propose.hyps(6) by (simp add: same_core_def install_def Let_def)
  then obtain h where h: "proposed_block_hash (ctx (s \<lparr> ctx := c \<rparr>)) = Some h" by auto
  obtain d where d: "revalidate_current_view_commits W (s \<lparr> ctx := c \<rparr>) = s \<lparr> ctx := d \<rparr>"
    "same_core (c \<lparr> commits := commits d, commit_view_numbers := commit_view_numbers d \<rparr>) d"
    using revalidate_frame [of W "s \<lparr> ctx := c \<rparr>"] by auto
  have "pruned W (s \<lparr> ctx := c \<rparr>) h UNIV (s \<lparr> ctx := d \<rparr>)" using revalidate_pruned [OF h, of W] d by simp
  then have "locked (s \<lparr> ctx := d \<rparr>)"
    using propose.hyps(1,6) d(2)
    by (intro locked_frame [OF propose.prems(3)])
      (auto simp: same_core_def install_def Let_def pruned_def stale_def hm_contains_def split: option.split)
  then show ?case using d(1) by simp
next
  case (received s c)
  show ?case
    using received by (intro locked_frame [OF received.prems(3)]) (auto simp: same_core_def)
next
  case (own_commit s my h sig c evs d n)
  have "signed_blocks s = []"
    using own_commit.hyps(1) own_commit.prems(3) locked_recorded by (auto simp: commit_gate_def)
  moreover have "proposed_block_hash (ctx s) = Some h"
    using own_commit.hyps(1,4) own_commit.prems(1) by (auto simp: commit_gate_def wf_context_def)
  ultimately show ?case
    using own_commit.hyps(1,2,6) by (simp add: locked_def same_core_def record_commit_def commit_gate_def)
next
  case (unlisted s xs n)
  then show ?case by simp
qed (simp_all add: locked_def same_core_def)

section \<open>Views are backed by votes\<close>

definition view_backed :: "consensus_context \<Rightarrow> bool" where
  "view_backed c \<longleftrightarrow> view_number c = 0 \<or> view_number c = - 1 \<or> has_enough_change_views (view_number c) c"

lemma view_backed_frame:
  "view_number d = view_number c \<Longrightarrow> change_views d = change_views c \<Longrightarrow> validators d = validators c \<Longrightarrow>
   view_backed d = view_backed c"
  by (simp add: view_backed_def has_enough_change_views_def quorum_m_def quorum_f_def validator_count_def)

lemma enough_votes_replace:
  fixes new_view :: byte
  assumes "hm_wf m" and "new_view \<le> fst x \<or> (\<forall>y. hm_get m i = Some y \<longrightarrow> fst y \<le> fst x)"
  shows "length (filter (\<lambda>(v, _). new_view \<le> v) (hm_values m))
         \<le> length (filter (\<lambda>(v, _). new_view \<le> v) (hm_values (hm_insert i x m)))"
proof (cases "new_view \<le> fst x")
  case True
  have one: "length (filter (\<lambda>x. fst x = i) m) \<le> 1"
    using assms(1) by (induction m) (force simp: hm_wf_def hm_keys_def filter_empty_conv)+
  have "length (filter (\<lambda>x. new_view \<le> fst (snd x)) m)
      \<le> length (filter (\<lambda>x. new_view \<le> fst (snd x)) (hm_remove i m)) + length (filter (\<lambda>x. fst x = i) m)"
    unfolding hm_remove_def by (induction m) auto
  with one True show ?thesis
    by (simp add: hm_values_def hm_insert_def filter_map comp_def case_prod_beta)
next
  case False
  with assms(2) have "\<not> new_view \<le> v" if "hm_get m i = Some (v, r)" for v r
    using that by fastforce
  then show ?thesis using enough_votes_insert [OF assms(1)] by blast
qed

lemma view_backed_step:
  assumes "round_step once W s t" and "hm_wf (change_views (ctx s))" and "view_backed (ctx s)"
  shows "view_backed (ctx t)"
  using assms
proof (induction rule: round_step.induct)
  case (vote i s x c)
  have "view_number (ctx s) = - 1 \<or> view_number (ctx s) \<le> fst x
      \<or> (\<forall>y. hm_get (change_views (ctx s)) i = Some y \<longrightarrow> fst y \<le> fst x)"
    using vote.hyps(2) by (auto simp: fresh_vote_def split: option.splits prod.splits)
  then show ?case
    using vote.prems(2) enough_votes_replace [OF vote.prems(1), of "view_number (ctx s)" x i] vote.hyps(4)
    by (auto simp: view_backed_def same_core_def has_enough_change_views_def quorum_m_def quorum_f_def validator_count_def)
next
  case (new_view s v ts c)
  then show ?case
    by (auto simp: view_backed_def same_core_def reset_for_new_view_def Let_def has_enough_change_views_def
        quorum_m_def quorum_f_def validator_count_def)
next
  case (propose s available hs ts r no P c)
  obtain d where d: "revalidate_current_view_commits W (s \<lparr> ctx := c \<rparr>) = s \<lparr> ctx := d \<rparr>"
    "same_core (c \<lparr> commits := commits d, commit_view_numbers := commit_view_numbers d \<rparr>) d"
    using revalidate_frame [of W "s \<lparr> ctx := c \<rparr>"] by auto
  with propose view_backed_frame [of d "ctx s"] show ?case
    by (simp add: same_core_def install_def Let_def)
qed (auto simp: same_core_def record_commit_def intro: view_backed_frame [THEN iffD1, rotated -1])

section \<open>What the service announces\<close>

fun commit_broadcast :: "consensus_event \<times> consensus_context \<times> file_system \<Rightarrow> bool" where
  "commit_broadcast (BroadcastMessage p, _, _) = (p_message_type p = Commit)"
| "commit_broadcast _ = False"

definition commit_event_ok :: "env \<Rightarrow> consensus_service \<Rightarrow> consensus_payload \<Rightarrow> consensus_context \<Rightarrow> file_system \<Rightarrow> bool" where
  "commit_event_ok W s p c d \<longleftrightarrow>
     prepare_request_received c \<and> has_enough_prepare_responses c \<and> \<not> has_missing_proposed_transactions c
     \<and> my_index c = Some (p_validator_index p) \<and> p_block_index p = block_index c \<and> p_view_number p = view_number c
     \<and> hm_get (commits c) (p_validator_index p) = Some (p_data p)
     \<and> hm_get (commit_view_numbers c) (p_validator_index p) = Some (view_number c)
     \<and> (\<exists>h. proposed_block_hash c = Some h \<and> own_signature W s (block_sign_data s h) (p_data p)
          \<and> (block_index c, view_number c, h) \<in> set (signed_blocks s))
     \<and> saved W (state_path s) c d"

definition block_event_ok :: "env \<Rightarrow> consensus_service \<Rightarrow> u32 \<Rightarrow> uint256 \<Rightarrow> block_data \<Rightarrow> consensus_context \<Rightarrow> bool" where
  "block_event_ok W s idx h data c \<longleftrightarrow>
     idx = block_index c \<and> proposed_block_hash c = Some h \<and> certified W s c \<and> has_enough_commits c
     \<and> \<not> has_missing_proposed_transactions c \<and> fst (prepare_block_data (s \<lparr> ctx := c \<rparr>)) = Inr data"

definition event_ok :: "env \<Rightarrow> consensus_service \<Rightarrow> consensus_event \<times> consensus_context \<times> file_system \<Rightarrow> bool" where
  "event_ok W s = (\<lambda>(e, c, d).
     wf_context W c \<and> validators c = validators (ctx s) \<and> block_index c = block_index (ctx s)
     \<and> my_index c = my_index (ctx s)
     \<and> (case e of
          BroadcastMessage p \<Rightarrow> p_message_type p = Commit \<longrightarrow> commit_event_ok W s p c d
        | BlockCommitted idx h data \<Rightarrow> block_event_ok W s idx h data c
        | _ \<Rightarrow> True))"

lemma prepare_block_data_cong: "ctx s = ctx t \<Longrightarrow> fst (prepare_block_data s) = fst (prepare_block_data t)"
  by (simp add: prepare_block_data_def Let_def)

lemma event_ok_mono:
  assumes "same_round s t" and "set (signed_blocks s) \<subseteq> set (signed_blocks t)" and "event_ok W s ev"
  shows "event_ok W t ev"
proof -
  obtain e c d where ev: "ev = (e, c, d)" by (cases ev)
  have cert: "certified W t c = certified W s c"
    using assms(1) by (intro certified_frame) (simp_all add: same_round_def)
  have sign: "own_signature W t = own_signature W s" "block_sign_data t = block_sign_data s" "state_path t = state_path s"
    using assms(1) by (simp_all add: fun_eq_iff own_signature_def block_sign_data_def same_round_def)
  have data: "fst (prepare_block_data (t \<lparr> ctx := c \<rparr>)) = fst (prepare_block_data (s \<lparr> ctx := c \<rparr>))"
    by (intro prepare_block_data_cong) simp
  have "commit_event_ok W s p c d \<Longrightarrow> commit_event_ok W t p c d" for p
    using assms(2) by (auto simp: commit_event_ok_def sign)
  moreover have "block_event_ok W t idx h bd c = block_event_ok W s idx h bd c" for idx h bd
    by (simp add: block_event_ok_def cert data)
  ultimately show ?thesis
    using assms(1,3) by (cases e) (simp_all add: ev event_ok_def same_round_def)
qed

lemma signed_blocks_step: "round_step once W s t \<Longrightarrow> listed (ctx s) \<Longrightarrow> set (signed_blocks s) \<subseteq> set (signed_blocks t)"
proof (induction rule: round_step.induct)
  case (propose s available hs ts r no P c)
  then show ?case using revalidate_frame [of W "s \<lparr> ctx := c \<rparr>"] by auto
qed auto

definition events_ok :: "env \<Rightarrow> consensus_service \<Rightarrow> bool" where
  "events_ok W s \<longleftrightarrow> (\<forall>ev \<in> set (outbox s). event_ok W s ev)
     \<and> length (filter commit_broadcast (outbox s)) \<le> length (signed_blocks s)"

lemma own_commit_event_ok:
  assumes gate: "commit_gate (ctx s)" and my: "my_index (ctx s) = Some my"
    and h: "h = unwrap_hash (proposed_block_hash (ctx s))" "own_signature W s (block_sign_data s h) sig"
    and core: "same_core (record_commit my (view_number (ctx s)) sig (ctx s)) c"
    and wf: "wf_context W (ctx s)" "wf_context W c"
    and p: "own_commit_payload (ctx s) my sig p" "saved W (state_path s) c d"
    and t: "t = s \<lparr> ctx := c, signed_blocks := signed_blocks s @ [(block_index (ctx s), view_number (ctx s), h)],
      disk := d, outbox := evs, calls := n \<rparr>"
  shows "event_ok W t (BroadcastMessage p, c, d)"
proof -
  have hash: "proposed_block_hash (ctx s) = Some h"
    using gate h(1) wf(1) by (auto simp: commit_gate_def wf_context_def)
  have sign: "own_signature W t = own_signature W s" "block_sign_data t = block_sign_data s"
    by (simp_all add: t fun_eq_iff own_signature_def block_sign_data_def)
  have "has_enough_prepare_responses c" "\<not> has_missing_proposed_transactions c"
    using gate same_core_derived(7,8) [OF core]
    by (auto simp: commit_gate_def record_commit_def has_enough_prepare_responses_def quorum_m_def quorum_f_def
        validator_count_def has_missing_proposed_transactions_def)
  then show ?thesis
    using gate my hash h(2) core wf(2) p sign
    by (auto simp: event_ok_def commit_event_ok_def own_commit_payload_def same_core_def record_commit_def
        commit_gate_def t)
qed

lemma events_ok_extend:
  assumes "round_step once W s t" "listed (ctx s)" "events_ok W s"
    and "outbox t = outbox s @ evs" "\<And>ev. ev \<in> set evs \<Longrightarrow> event_ok W t ev"
    and "length (filter commit_broadcast evs) + length (signed_blocks s) \<le> length (signed_blocks t)"
  shows "events_ok W t"
proof -
  have "event_ok W t ev" if "ev \<in> set (outbox s)" for ev
    using event_ok_mono [OF _ signed_blocks_step [OF assms(1,2)]] same_round_step [OF assms(1)] assms(3) that
    by (simp add: events_ok_def)
  with assms(3-6) show ?thesis unfolding events_ok_def by auto
qed

lemma finish_event_ok:
  assumes "has_enough_commits (ctx s)" "\<not> has_missing_proposed_transactions (ctx s)"
    and "proposed_block_hash (ctx s) = Some h" "certified W s (ctx s)" "wf_context W (ctx s)"
    and c: "c = (ctx s) \<lparr> round_state := Committed \<rparr>"
    and data: "fst (prepare_block_data (s \<lparr> ctx := c \<rparr>)) = Inr data"
    and t: "t = s \<lparr> ctx := c, outbox := evs, calls := n, running := b \<rparr>"
  shows "event_ok W t (BlockCommitted (block_index c) h data, c, d)"
proof -
  have "certified W t c" using certified_frame [of c "ctx s" t s W] assms(4) by (simp add: c t)
  moreover have "has_enough_commits c" "\<not> has_missing_proposed_transactions c"
    using assms(1,2) by (simp_all add: c has_enough_commits_def quorum_m_def quorum_f_def validator_count_def
        commit_view_def has_missing_proposed_transactions_def cong: option.case_cong)
  moreover have "fst (prepare_block_data (t \<lparr> ctx := c \<rparr>)) = Inr data"
    using data prepare_block_data_cong [of "t \<lparr> ctx := c \<rparr>" "s \<lparr> ctx := c \<rparr>"] by simp
  ultimately show ?thesis
    using assms(3,5) by (simp add: event_ok_def block_event_ok_def c t)
qed

lemma events_ok_step:
  assumes "round_step once W s t" and "wf_context W (ctx s)" "certified W s (ctx s)" "listed (ctx s)" and "events_ok W s"
  shows "events_ok W t"
proof -
  note extend = events_ok_extend [OF assms(1,4,5)]
  note wf = wf_context_step [OF assms(1,2)]
  from assms(1) show ?thesis
  proof cases
    case (unlisted xs n)
    then show ?thesis using assms(4) by simp
  next
    case (tell e n)
    have "event_ok W t (e, ctx s, disk s)" using tell assms(2) by (cases e) (simp_all add: event_ok_def)
    moreover have "\<not> commit_broadcast (e, ctx s, disk s)" using tell by (cases e) simp_all
    ultimately show ?thesis using tell by (intro extend [of "[(e, ctx s, disk s)]"]) simp_all
  next
    case (propose available hs ts r no P c)
    then show ?thesis
      using revalidate_frame [of W "s \<lparr> ctx := c \<rparr>"] by (intro extend [of "[]"]) auto
  next
    case (own_commit my h sig c evs d n)
    have "event_ok W t ev" if "ev \<in> set evs" for ev
      using own_commit_event_ok [OF own_commit(2,3,5,6,7) assms(2) _ _ _ own_commit(1)] that own_commit(1,8) wf by auto
    moreover have "length (filter commit_broadcast evs) \<le> 1" using own_commit(8) by auto
    ultimately show ?thesis using own_commit(1) by (intro extend [of evs]) simp_all
  next
    case (finish c evs n b)
    obtain h where h: "proposed_block_hash (ctx s) = Some h" using finish(5) assms(2) by (auto simp: wf_context_def)
    have "event_ok W t ev" if "ev \<in> set evs" for ev
      using finish_event_ok [OF finish(2,3) h assms(3,2) finish(6) _ finish(1)] that finish(6,7) h by auto
    moreover have "filter commit_broadcast evs = []" using finish(7) by auto
    ultimately show ?thesis using finish(1) by (intro extend [of evs]) simp_all
  qed (rule extend [of "[]"]; simp)+
qed

section \<open>The round invariant\<close>

definition round_inv :: "env \<Rightarrow> consensus_service \<Rightarrow> bool" where
  "round_inv W s \<longleftrightarrow> wf_context W (ctx s) \<and> certified W s (ctx s) \<and> listed (ctx s) \<and> events_ok W s
     \<and> view_backed (ctx s)"

lemma round_inv_tidy: "round_inv W s \<Longrightarrow> tidy s"
  by (simp add: round_inv_def wf_context_def tidy_def)

lemma listed_cong: "validators d = validators c \<Longrightarrow> my_index d = my_index c \<Longrightarrow> listed d = listed c"
  by (simp add: listed_def validator_count_def cong: option.case_cong)

lemma round_inv_step: "round_step once W s t \<Longrightarrow> round_inv W s \<Longrightarrow> round_inv W t"
  using wf_context_step [of once W s t] certified_step [of once W s t] events_ok_step [of once W s t]
    view_backed_step [of once W s t] same_round_step [of once W s t] listed_cong [of "ctx t" "ctx s"]
  by (simp add: round_inv_def same_round_def wf_context_def)

lemma round_inv_rounds: "rounds once W s t \<Longrightarrow> round_inv W s \<Longrightarrow> round_inv W t"
  by (induction rule: rtranclp_induct) (auto intro: round_inv_step)

lemma locked_rounds: "rounds True W s t \<Longrightarrow> round_inv W s \<Longrightarrow> locked s \<Longrightarrow> locked t"
proof (induction rule: rtranclp_induct)
  case (step t u)
  then have "round_inv W t" using round_inv_rounds by blast
  with step show ?case using locked_step [OF step.hyps(2)] by (simp add: round_inv_def)
qed simp

lemma host_step_rounds: "host_step once W s t \<Longrightarrow> round_inv W s \<Longrightarrow> rounds once W s t"
  using host_step_refines round_inv_tidy by (auto simp: refines_def)

text \<open>
  States the service can be in while it works on one height: it was started for the height
  as a listed validator, with its logs empty, and has then performed any number of operations of
  the height. \<open>reaches\<close> allows all of them, \<open>orderly_reaches\<close> those of a careful host.
\<close>

definition fresh_service :: "consensus_service \<Rightarrow> bool" where
  "fresh_service s \<longleftrightarrow> listed (ctx s) \<and> outbox s = [] \<and> signed_blocks s = []"

inductive height_run :: "bool \<Rightarrow> env \<Rightarrow> consensus_service \<Rightarrow> u32 \<Rightarrow> consensus_service \<Rightarrow> bool" for once W s0 idx where
  begin_height: "fresh_service s0 \<Longrightarrow>
    start_with_block_context idx ts prev prev_ts next ver s0 = (Inr (), s) \<Longrightarrow> height_run once W s0 idx s"
| next_step: "height_run once W s0 idx s \<Longrightarrow> host_step once W s t \<Longrightarrow> height_run once W s0 idx t"

abbreviation reaches :: "env \<Rightarrow> consensus_service \<Rightarrow> u32 \<Rightarrow> consensus_service \<Rightarrow> bool" where
  "reaches \<equiv> height_run False"

abbreviation orderly_reaches :: "env \<Rightarrow> consensus_service \<Rightarrow> u32 \<Rightarrow> consensus_service \<Rightarrow> bool" where
  "orderly_reaches \<equiv> height_run True"

lemma orderly_step_any: "orderly_step W s t \<Longrightarrow> host_step once W s t"
  by (induction rule: host_step.induct) (simp add: host_step.operate)

lemma orderly_reaches_any: "orderly_reaches W s0 idx s \<Longrightarrow> height_run once W s0 idx s"
  by (induction rule: height_run.induct) (auto intro: height_run.intros orderly_step_any)

definition same_node :: "consensus_service \<Rightarrow> consensus_service \<Rightarrow> bool" where
  "same_node s t \<longleftrightarrow> validators (ctx t) = validators (ctx s) \<and> my_index (ctx t) = my_index (ctx s)
     \<and> network t = network s \<and> private_key t = private_key s \<and> signer t = signer s \<and> state_path t = state_path s"

lemma start_inv:
  assumes "fresh_service s0" "start_with_block_context idx ts prev prev_ts next ver s0 = (Inr (), s)"
  shows "round_inv W s" "block_index (ctx s) = idx" "same_node s0 s" "signed_blocks s = []" "outbox s = []"
proof -
  have s: "s = s0 \<lparr> ctx := (reset_for_new_block idx ts (ctx s0)) \<lparr> prev_hash := prev,
      previous_block_timestamp := prev_ts, next_consensus := next, version := ver \<rparr>, running := True \<rparr>"
    using assms(2)
    by (auto simp: start_with_block_context_def and_then_def modify_ctx_def set_running_def split: if_splits)
  show "block_index (ctx s) = idx" "same_node s0 s"
    by (simp_all add: s reset_for_new_block_def Let_def same_node_def)
  then have "listed (ctx s)"
    using assms(1) listed_cong [of "ctx s" "ctx s0"] by (simp add: same_node_def fresh_service_def)
  then show "round_inv W s"
    using assms(1)
    by (simp add: s round_inv_def fresh_service_def wf_context_def certified_def events_ok_def
        view_backed_def reset_for_new_block_def Let_def)
  show "signed_blocks s = []" "outbox s = []" using assms(1) by (simp_all add: s fresh_service_def)
qed

lemma height_run_inv:
  assumes "height_run once W s0 idx s"
  shows "round_inv W s \<and> block_index (ctx s) = idx \<and> same_node s0 s"
  using assms
proof (induction rule: height_run.induct)
  case (begin_height ts prev prev_ts nxt ver s)
  then show ?case using start_inv [OF begin_height] by simp
next
  case (next_step s t)
  then have "rounds once W s t" using host_step_rounds by blast
  then show ?case
    using next_step same_round_rounds round_inv_rounds by (auto simp: same_round_def same_node_def)
qed

text \<open>Under a careful host the service is bound to the block it has signed.\<close>

lemma orderly_locked: "orderly_reaches W s0 idx s \<Longrightarrow> locked s"
proof (induction rule: height_run.induct)
  case (begin_height ts prev prev_ts nxt ver s)
  then show ?case using start_inv(4) [OF begin_height] by (simp add: locked_def)
next
  case (next_step s t)
  have "round_inv W s" using height_run_inv [OF next_step.hyps(1)] by simp
  then show ?case using locked_rounds [OF host_step_rounds [OF next_step.hyps(2)]] next_step.IH by simp
qed

end
