(* ===== verification/Dbft_Scenario.thy ===== *)
theory Dbft_Scenario
  imports Dbft_Safety
begin

text \<open>
  A concrete height of a committee of two validators, on which the theorems about the service are
  applied. The parameters of the model (hash function, signatures, clock, random numbers, channel,
  file system) are instantiated by small total functions: every signature verifies when it is the
  one byte string \<open>demo_sig\<close>, and the hash of a byte string repeats its length, to which the hash of
  a block header adds the first byte of the nonce, so that headers with different nonces get
  different hashes. Validator 1 is the primary of view 0 of height 1; it proposes the empty block
  with nonce \<open>n\<close>, validator 0 answers and commits, and the commit of validator 1 completes the block.
\<close>

section \<open>The committee and its messages\<close>

definition demo_sig :: bytes where "demo_sig = replicate 64 0"

definition demo_env :: "(persisted_state \<Rightarrow> bytes option) \<Rightarrow> (bytes \<Rightarrow> persisted_state option) \<Rightarrow> env" where
  "demo_env ser de = \<lparr> cry = demo_crypto \<lparr> sha256_fn := (\<lambda>d. replicate 32 (of_nat (length d) + (if length d = 109 then d ! 76 else 0))),
       p256_verify := (\<lambda>_ _ sig. sig = demo_sig) \<rparr>,
     software_sign = (\<lambda>_ _. Inr demo_sig), external_sign = (\<lambda>_ _ _. Inl NotValidator),
     clock = (\<lambda>_. 20000), os_rng = (\<lambda>_. 5), channel_ok = (\<lambda>_. True), fs_write_ok = (\<lambda>_. True),
     fs_rename_ok = (\<lambda>_. True), fs_read_ok = (\<lambda>_. True), bincode_ser = ser, bincode_de = de,
     lru_insert = (\<lambda>hs h. h # hs), map_order = (\<lambda>xs. xs) \<rparr>"

definition demo_validators :: "validator_info list" where
  "demo_validators =
     [\<lparr> validator_index = 0, public_key = ECPoint Secp256r1 (2 # replicate 32 1), script_hash = UInt160 1 0 0 \<rparr>,
      \<lparr> validator_index = 1, public_key = ECPoint Secp256r1 (2 # replicate 32 2), script_hash = UInt160 2 0 0 \<rparr>]"

definition demo_service :: "byte \<Rightarrow> consensus_service" where
  "demo_service i = (new_with_signer 5195086 demo_validators (Some i) (replicate 32 0) False)
     \<lparr> state_path := Some ''consensus'' \<rparr>"

definition demo_start :: "byte \<Rightarrow> consensus_service" where
  "demo_start i = snd (start_with_block_context 1 10000 (UInt256 9 0 0 0) 9000 (UInt160 7 0 0) 0 (demo_service i))"

definition demo_message :: "byte \<Rightarrow> consensus_message_type \<Rightarrow> bytes \<Rightarrow> consensus_payload" where
  "demo_message i ty body = set_witness demo_sig (payload_new 5195086 1 i 0 ty body)"

definition demo_proposal :: "u64 \<Rightarrow> prepare_request_message" where
  "demo_proposal n = \<lparr> prq_block_index = 1, prq_view_number = 0, prq_validator_index = 1, prq_version = 0,
     prq_prev_hash = UInt256 9 0 0 0, prq_timestamp = 20000, prq_nonce = n, prq_transaction_hashes = [] \<rparr>"

definition hash_of :: "nat \<Rightarrow> uint256" where
  "hash_of n = uint256_from_array (replicate 32 (of_nat n))"

lemma hash_of_bytes: "uint256_from_bytes (replicate 32 (of_nat n)) = Some (hash_of n)"
  by (simp add: hash_of_def uint256_from_bytes_def)

lemma hash_of_eq [simp]: "m < 256 \<Longrightarrow> n < 256 \<Longrightarrow> hash_of m = hash_of n \<longleftrightarrow> m = n"
proof
  assume "m < 256" "n < 256" "hash_of m = hash_of n"
  then have "uint256_to_bytes (hash_of m) = uint256_to_bytes (hash_of n)" by simp
  then have "replicate 32 (of_nat m :: byte) = replicate 32 (of_nat n)"
    by (simp add: hash_of_def uint256_to_from)
  then have "(of_nat m :: byte) = of_nat n" by (simp add: replicate_eq_replicate)
  then have "unat (of_nat m :: byte) = unat (of_nat n :: byte)" by simp
  then show "m = n" using \<open>m < 256\<close> \<open>n < 256\<close> by (simp add: unat_of_nat)
qed simp

lemma unsigned_bytes_length:
  assumes "get_validator (ctx s) (p_validator_index p) = Some v" "length (p_data p) < 68"
  obtains bs where "dbft_unsigned_extensible_bytes s p = Inr bs" "length bs = 41 + length (p_data p)"
proof -
  have "unat (of_nat (7 + length (p_data p)) :: u64) = 7 + length (p_data p)"
    using assms(2) unat_of_nat [of "7 + length (p_data p)", where 'a = 64] by (simp del: of_nat_add)
  then have "(of_nat (7 + length (p_data p)) :: u64) < 253"
    using assms(2) by (simp add: word_less_nat_alt del: of_nat_add)
  then have "length (write_var_int (of_nat (7 + length (p_data p))) dst) = length dst + 1" for dst
    by (simp add: write_var_int_def VAR_INT_U16_MARKER_def)
  then show ?thesis
    using assms
    by (intro that) (simp_all add: dbft_unsigned_extensible_bytes_def dbft_sender_def write_extensible_def
        and_then_def map_err_def write_var_string_def write_var_bytes_def write_u32_def write_bytes_def writer_push_def
        write_var_bytes_to_def into_bytes_def binary_writer_new_def to_message_bytes_def
        consensus_message_bytes_def Let_def, simp add: write_var_int_def VAR_INT_U16_MARKER_def)
qed

lemma demo_payload_hash:
  assumes "get_validator (ctx s) (p_validator_index p) = Some v" "length (p_data p) < 68"
  shows "dbft_payload_hash (demo_env ser de) s p = Inr (hash_of (41 + length (p_data p)))"
proof -
  obtain bs where "dbft_unsigned_extensible_bytes s p = Inr bs" "length bs = 41 + length (p_data p)"
    using unsigned_bytes_length [OF assms] by blast
  then show ?thesis
    using hash_of_bytes [of "length bs"] assms(2) by (auto simp add: dbft_payload_hash_def demo_env_def)
qed

lemma demo_verify:
  "get_validator (ctx s) i = Some v \<Longrightarrow> verify_signature (demo_env ser de) s d sig i \<longleftrightarrow> sig = demo_sig"
  by (auto simp: verify_signature_def demo_env_def demo_sig_def)

lemma demo_request_body: "length (prepare_request_serialize (demo_proposal n)) = 53"
  by (simp add: prepare_request_serialize_def demo_proposal_def append_uint256_array_def write_var_int_def VAR_INT_U16_MARKER_def)


lemma demo_start_fields:
  "validators (ctx (demo_start i)) = demo_validators" "my_index (ctx (demo_start i)) = Some i"
  "block_index (ctx (demo_start i)) = 1" "view_number (ctx (demo_start i)) = 0"
  "version (ctx (demo_start i)) = 0" "prev_hash (ctx (demo_start i)) = UInt256 9 0 0 0"
  "previous_block_timestamp (ctx (demo_start i)) = 9000"
  "next_consensus (ctx (demo_start i)) = UInt160 7 0 0"
  "prepare_request_received (ctx (demo_start i)) = False" "prepare_responses (ctx (demo_start i)) = []"
  "prepare_response_hashes (ctx (demo_start i)) = []"
  "commits (ctx (demo_start i)) = []" "commit_invocations (ctx (demo_start i)) = []" "commit_view_numbers (ctx (demo_start i)) = []"
  "change_views (ctx (demo_start i)) = []" "seen_message_hashes (ctx (demo_start i)) = []"
  "expected_block_time (ctx (demo_start i)) = 15000" "available_tx_metrics (ctx (demo_start i)) = []"
  "max_block_size (ctx (demo_start i)) = 2097152" "max_block_system_fee (ctx (demo_start i)) = 150000000000"
  "round_state (ctx (demo_start i)) = (if i = 1 then Primary else Backup)"
  "running (demo_start i)" "network (demo_start i) = 5195086" "signer (demo_start i) = False"
  "private_key (demo_start i) = replicate 32 0" "state_path (demo_start i) = Some ''consensus''"
  "timer_extension (ctx (demo_start i)) = 0" "transaction_request_sent_at (ctx (demo_start i)) = None"
  "last_change_view_timestamps (ctx (demo_start i)) = []" "change_view_invocations (ctx (demo_start i)) = []" "outbox (demo_start i) = []" "signed_blocks (demo_start i) = []" "calls (demo_start i) = 0"
  "max_transactions_per_block (demo_start i) = 512" "disk (demo_start i) = (\<lambda>_. None)"
  by (simp_all add: demo_start_def start_with_block_context_def demo_service_def new_with_signer_def with_context_and_signer_def
    and_then_def modify_ctx_def set_running_def context_new_def reset_for_new_block_def Let_def demo_validators_def
    effective_block_time_def DEFAULT_BLOCK_TIME_MS_def DEFAULT_MAX_BLOCK_SIZE_def DEFAULT_MAX_BLOCK_SYSTEM_FEE_def
    DEFAULT_MAX_TRANSACTIONS_PER_BLOCK_def is_primary_def primary_index_def validator_count_def)



definition demo_request :: "u64 \<Rightarrow> consensus_payload" where
  "demo_request n = demo_message 1 PrepareRequest (prepare_request_serialize (demo_proposal n))"

lemma demo_request_fields:
  "p_network (demo_request n) = 5195086" "p_block_index (demo_request n) = 1" "p_validator_index (demo_request n) = 1"
  "p_view_number (demo_request n) = 0" "p_message_type (demo_request n) = PrepareRequest"
  "p_data (demo_request n) = prepare_request_serialize (demo_proposal n)" "p_witness (demo_request n) = demo_sig"
  by (simp_all add: demo_request_def demo_message_def set_witness_def payload_new_def)


lemma demo_hash_in:
  assumes "validators (ctx s) = demo_validators" "p_validator_index p < 2" "length (p_data p) < 68"
  shows "dbft_payload_hash (demo_env ser de) s p = Inr (hash_of (41 + length (p_data p)))"
  using assms demo_payload_hash [of s p]
  by (auto simp: get_validator_def demo_validators_def word_less_nat_alt)

lemma demo_verify_in:
  assumes "validators (ctx s) = demo_validators" "i < 2"
  shows "verify_signature (demo_env ser de) s d sig i \<longleftrightarrow> sig = demo_sig"
  using assms demo_verify [of s i]
  by (auto simp: get_validator_def demo_validators_def word_less_nat_alt)

lemma demo_sig_props [simp]: "demo_sig \<noteq> []" "length demo_sig = 64"
  by (simp_all add: demo_sig_def)

lemma demo_proposal_parse:
  "prepare_request_deserialize_body (prepare_request_serialize (demo_proposal n)) 1 0 1 = Inr (demo_proposal n)"
  using prepare_request_roundtrip [of "demo_proposal n"]
  by (simp add: prepare_request_wire_def demo_proposal_def)

definition demo_block :: "u64 \<Rightarrow> uint256" where
  "demo_block n = uint256_from_array (replicate 32 (109 + to_le_bytes n ! 0))"

lemma demo_merkle: "compute_merkle_root (demo_env ser de) [] = uint256_zero"
  by (simp add: compute_merkle_root_def compute_root_def)

lemma demo_header: "compute_header_hash (demo_env ser de) ver prev root ts n idx p nxt = demo_block n"
  by (simp add: compute_header_hash_def demo_env_def demo_block_def nth_append)

lemmas demo_simps = demo_hash_in demo_verify_in demo_request_body demo_start_fields demo_request_fields demo_proposal_parse
  demo_merkle demo_header

lemma demo_primary: "validators c = demo_validators \<Longrightarrow> block_index c = 1 \<Longrightarrow> view_number c = 0 \<Longrightarrow> primary_index c = 1"
  by (simp add: primary_index_def validator_count_def demo_validators_def)

lemma demo_count: "validators c = demo_validators \<Longrightarrow> validator_count c = 2"
  by (simp add: validator_count_def demo_validators_def)

lemma demo_quorum: "validators c = demo_validators \<Longrightarrow> quorum_m c = 2 \<and> quorum_f c = 0"
  by (simp add: quorum_m_def quorum_f_def validator_count_def demo_validators_def bft_threshold_def)

lemma demo_proposal_fields:
  "prq_block_index (demo_proposal n) = 1" "prq_view_number (demo_proposal n) = 0"
  "prq_validator_index (demo_proposal n) = 1" "prq_version (demo_proposal n) = 0"
  "prq_prev_hash (demo_proposal n) = UInt256 9 0 0 0" "prq_timestamp (demo_proposal n) = 20000"
  "prq_nonce (demo_proposal n) = n" "prq_transaction_hashes (demo_proposal n) = []"
  by (simp_all add: demo_proposal_def)

lemma demo_env_fields:
  "clock (demo_env ser de) k = 20000" "channel_ok (demo_env ser de) k" "fs_write_ok (demo_env ser de) k"
  "fs_rename_ok (demo_env ser de) k" "fs_read_ok (demo_env ser de) k" "bincode_ser (demo_env ser de) = ser"
  "bincode_de (demo_env ser de) = de" "software_sign (demo_env ser de) = (\<lambda>_ _. Inr demo_sig)"
  "os_rng (demo_env ser de) k = 5" "lru_insert (demo_env ser de) = (\<lambda>hs h. h # hs)"
  by (simp_all add: demo_env_def)

lemma demo_delay: "expected_block_time c = 15000 \<Longrightarrow>
    saturating_add 20000 (saturating_mul (prepare_request_delay c) 8) = (140000 :: u64)"
  by (simp add: prepare_request_delay_def base_block_time_def saturating_add_def saturating_mul_def)

lemma demo_script_size:
  "length (expected_witness_verification_script C demo_validators) = 77"
  "length (fold (\<lambda>_. emit_push (replicate 64 0)) [0..<bft_threshold (length demo_validators)] []) = 132"
  by (simp_all add: expected_witness_verification_script_def demo_validators_def bft_threshold_def
      multi_sig_redeem_script_from_points_def emit_syscall_hash_def emit_push_int_def emit_push_def sort_by_def Let_def
      upt_rec emit_keys_def emit_instruction_def emit_bytes_def emit_opcode_def)

lemma get_var_size_usize_le: "get_var_size_usize n \<le> 9"
  by (simp add: get_var_size_usize_def get_var_size_def encoded_len_def)

lemma demo_size:
  assumes "validators c = demo_validators" "available_tx_metrics c = []"
  shows "expected_block_size (cry (demo_env ser de)) c \<le> 2097152"
  using assms demo_script_size get_var_size_usize_le [of 77] get_var_size_usize_le [of 132] get_var_size_usize_le [of 0]
  by (simp add: expected_block_size_def expected_block_size_without_transactions_def Let_def
    hm_len_def hm_values_def witness_size_def get_var_size_bytes_def)

lemma demo_extend:
  assumes "validators c = demo_validators" "expected_block_time c = 15000" "my_index c = Some i" "change_views c = []"
    "commits c = []"
  shows "extend_timer_by_factor 2 c = c \<lparr> timer_extension := max (timer_extension c) 15000 \<rparr>"
  using assms by (simp add: extend_timer_by_factor_def Let_def view_changing_def commit_sent_def demo_quorum
    base_block_time_def saturating_mul_def hm_defs)

lemma demo_responded:
  "length (prepare_response_serialize m) = 32" "length (commit_serialize \<lparr>cm_block_index = a, cm_view_number = b, cm_validator_index = d, cm_signature = demo_sig\<rparr>) = 64"
  by (simp_all add: prepare_response_serialize_def commit_serialize_def)

lemma demo_fee: "available_tx_metrics c = [] \<Longrightarrow> expected_block_system_fee c = 0"
  by (simp add: expected_block_system_fee_def hm_values_def)


lemma demo_fresh: "fresh_service (demo_service 0)" "fresh_service (demo_service 1)"
  by (simp_all add: fresh_service_def demo_service_def new_with_signer_def with_context_and_signer_def listed_def
      context_new_def validator_count_def demo_validators_def)

lemma demo_begin: "start_with_block_context 1 10000 (UInt256 9 0 0 0) 9000 (UInt160 7 0 0) 0 (demo_service i) = (Inr (), demo_start i)"
  by (simp add: demo_start_def start_with_block_context_def demo_service_def new_with_signer_def
      with_context_and_signer_def and_then_def modify_ctx_def set_running_def context_new_def)

lemmas demo_reaches_start = height_run.begin_height [OF demo_fresh(1) demo_begin]
  height_run.begin_height [OF demo_fresh(2) demo_begin]

section \<open>Validator 0\<close>

text \<open>
  The context in which validator 0 answers the proposal, the one in which it sends its own Commit,
  and the two states it reaches.
\<close>

definition demo_prepared :: "u64 \<Rightarrow> consensus_context" where
  "demo_prepared n = (ctx (demo_start 0)) \<lparr>
     last_seen_messages := hm_insert 1 1 (last_seen_messages (ctx (demo_start 0))),
     prepare_request_received := True,
     prepare_request_invocation := Some (invocation_script_from_signature demo_sig),
     version := 0, prev_hash := UInt256 9 0 0 0, proposed_timestamp := 20000, nonce := n,
     proposed_tx_hashes := [], available_tx_hashes := [], preparation_hash := Some (hash_of 94),
     prepare_responses := [], prepare_response_hashes := [],
     proposed_block_hash := Some (demo_block n), timer_extension := 15000 \<rparr>"

definition demo_locked :: "u64 \<Rightarrow> consensus_context" where
  "demo_locked n = (demo_prepared n) \<lparr>
     prepare_responses := [(0, invocation_script_from_signature demo_sig)],
     prepare_response_hashes := [(0, hash_of 94)],
     commit_invocations := [(0, invocation_script_from_signature demo_sig)],
     commits := [(0, demo_sig)], commit_view_numbers := [(0, 0)] \<rparr>"

definition demo_response :: consensus_payload where
  "demo_response = demo_message 0 PrepareResponse (uint256_to_bytes (hash_of 94))"

definition demo_commit :: "byte \<Rightarrow> consensus_payload" where
  "demo_commit i = demo_message i Commit demo_sig"

definition demo_voted :: "bytes \<Rightarrow> u64 \<Rightarrow> consensus_service" where
  "demo_voted bs n = (demo_start 0) \<lparr>
     ctx := (demo_locked n) \<lparr> seen_message_hashes := [hash_of 94] \<rparr>,
     outbox := [(BroadcastMessage demo_response, demo_prepared n, \<lambda>_. None),
                (BroadcastMessage (demo_commit 0), demo_locked n, [''consensus'' \<mapsto> bs])],
     disk := [''consensus'' \<mapsto> bs], signed_blocks := [(1, 0, demo_block n)], calls := 4 \<rparr>"

lemmas demo_eval = not_accepting_payloads_due_to_view_changing_def view_changing_def
    demo_simps demo_primary check_witness_def and_then_def from_result_def dbft_sign_data_def ok_def
    prepare_request_validate_def demo_proposal_fields demo_env_fields check_proposal_def current_timestamp_def next_call_def
    demo_delay modify_ctx_def store_proposal_def
    retain_responses_for_def context_header_hash_def revalidate_current_view_commits_def Let_def demo_extend hm_retain_def hm_keys_def
    demo_responded is_primary_def hm_defs has_missing_proposed_transactions_def demo_fee create_payload_def svc_my_index_def
    sign_def set_witness_def payload_new_def broadcast_def send_event_def demo_size [unfolded not_less [symmetric]]
    lift_ctx_def add_prepare_response_def demo_count unwrap_hash_def check_prepare_responses_def
    has_enough_prepare_responses_def demo_quorum own_commit_recorded_def sign_block_hash_def
    add_commit_def save_context_if_configured_def save_to_def check_commits_def has_enough_commits_def commit_view_def
    context_to_bytes_def

lemma demo_vote:
  assumes "ser (to_persisted (demo_locked n)) = Some bs"
  shows "process_message (demo_env ser de) (demo_request n) (demo_start 0) = (Inr (), demo_voted bs n)"
  using assms
  by (simp add: process_message_def on_prepare_request_def send_prepare_response_def demo_eval
    has_seen_message_def mark_message_seen_def update_last_seen_message_def
    demo_prepared_def demo_locked_def demo_voted_def demo_response_def demo_commit_def demo_message_def
    commit_serialize_def prepare_response_serialize_def)

definition demo_certificate :: "u64 \<Rightarrow> block_data" where
  "demo_certificate n = \<lparr> bd_block_index = 1, bd_version = 0, bd_prev_hash = UInt256 9 0 0 0, bd_timestamp = 20000,
     bd_nonce = n, bd_primary_index = 1, bd_transaction_hashes = [],
     bd_signatures = [(0, demo_sig), (1, demo_sig)], bd_validator_pubkeys = map public_key demo_validators,
     bd_required_signatures = 2, bd_next_consensus = UInt160 7 0 0 \<rparr>"

definition demo_final :: "u64 \<Rightarrow> consensus_context" where
  "demo_final n = (demo_locked n) \<lparr> seen_message_hashes := [hash_of 94],
     last_seen_messages := hm_insert 1 1 (last_seen_messages (demo_locked n)),
     commits := [(1, demo_sig), (0, demo_sig)], commit_view_numbers := [(1, 0), (0, 0)],
     commit_invocations := [(1, invocation_script_from_signature demo_sig), (0, invocation_script_from_signature demo_sig)],
     round_state := Committed \<rparr>"

definition demo_done :: "bytes \<Rightarrow> u64 \<Rightarrow> consensus_service" where
  "demo_done bs n = (demo_voted bs n) \<lparr>
     ctx := (demo_final n) \<lparr> seen_message_hashes := [hash_of 105, hash_of 94] \<rparr>,
     outbox := outbox (demo_voted bs n) @
       [(BlockCommitted 1 (demo_block n) (demo_certificate n), demo_final n, [''consensus'' \<mapsto> bs])],
     running := False, calls := 5 \<rparr>"

lemma demo_hold:
  assumes "my_index c = Some i" "hm_contains (commits c) i" "hm_get (commit_view_numbers c) i = Some (view_number c)"
  shows "extend_timer_by_factor 4 c = c"
  using assms by (simp add: extend_timer_by_factor_def Let_def commit_sent_def)

lemma demo_finish:
  "process_message (demo_env ser de) (demo_commit 1) (demo_voted bs n) = (Inr (), demo_done bs n)"
  by (simp add: process_message_def on_commit_def demo_eval cache_commit_invocation_def
    has_seen_message_def mark_message_seen_def update_last_seen_message_def demo_hold prepare_block_data_def
    collect_commit_signatures_def set_running_def demo_certificate_def demo_final_def demo_done_def
    demo_prepared_def demo_locked_def demo_voted_def demo_commit_def demo_message_def)

lemma host_message: "process_message W p s = (r, t) \<Longrightarrow> host_step once W s t"
  using host_step.operate [of "ProcessMessage p" once s W] by simp

lemma reaches_message:
  "height_run once W s0 idx s \<Longrightarrow> process_message W p s = (r, t) \<Longrightarrow> height_run once W s0 idx t"
  by (rule height_run.next_step [OF _ host_message])

lemma reaches_proposal:
  assumes "height_run once W s0 idx s" "once \<Longrightarrow> \<not> prepare_request_received (ctx s)"
    and "on_transactions_received W hs s = (r, t)"
  shows "height_run once W s0 idx t"
  using height_run.next_step [OF assms(1) host_step.operate [of "OnTransactionsReceived hs"]] assms(2,3) by simp

lemma demo_reaches:
  assumes "ser (to_persisted (demo_locked n)) = Some bs"
  shows "height_run once (demo_env ser de) (demo_service 0) 1 (demo_voted bs n)"
    and "height_run once (demo_env ser de) (demo_service 0) 1 (demo_done bs n)"
proof -
  show *: "height_run once (demo_env ser de) (demo_service 0) 1 (demo_voted bs n)"
    using reaches_message [OF demo_reaches_start(1) demo_vote [where ser = ser, OF assms]] .
  show "height_run once (demo_env ser de) (demo_service 0) 1 (demo_done bs n)"
    by (rule reaches_message [OF * demo_finish])
qed

section \<open>Validator 1, the primary\<close>

definition demo_led :: consensus_context where
  "demo_led = (ctx (demo_start 1)) \<lparr> transaction_request_sent := True, transaction_request_sent_at := Some 20000,
     proposed_timestamp := 20000, proposed_tx_hashes := [], available_tx_hashes := [], nonce := 5, preparation_hash := Some (hash_of 94),
     prepare_request_invocation := Some (invocation_script_from_signature demo_sig),
     proposed_block_hash := Some (demo_block 5) \<rparr>"

definition demo_proposed :: consensus_service where
  "demo_proposed = (demo_start 1) \<lparr> ctx := demo_led \<lparr> prepare_request_received := True \<rparr>,
     outbox := [(BroadcastMessage (demo_request 5), demo_led, \<lambda>_. None)], calls := 3 \<rparr>"

lemma demo_propose:
  "on_transactions_received (demo_env ser de) [] (demo_start 1) = (Inr (), demo_proposed)"
  by (simp add: on_transactions_received_def propose_def demo_eval generate_nonce_def prepare_request_timestamp_def
    mark_available_transactions_def demo_led_def demo_proposed_def demo_request_def demo_proposal_def [symmetric]
    demo_message_def saturating_add_def)

definition demo_led_locked :: consensus_context where
  "demo_led_locked = demo_led \<lparr> prepare_request_received := True,
     last_seen_messages := hm_insert 0 1 (last_seen_messages (ctx (demo_start 1))),
     prepare_responses := [(0, invocation_script_from_signature demo_sig)],
     prepare_response_hashes := [(0, hash_of 94)], timer_extension := 15000,
     commit_invocations := [(1, invocation_script_from_signature demo_sig)],
     commits := [(1, demo_sig)], commit_view_numbers := [(1, 0)] \<rparr>"

definition demo_agreed :: "bytes \<Rightarrow> consensus_service" where
  "demo_agreed bs = demo_proposed \<lparr> ctx := demo_led_locked \<lparr> seen_message_hashes := [hash_of 73] \<rparr>,
     outbox := outbox demo_proposed @ [(BroadcastMessage (demo_commit 1), demo_led_locked, [''consensus'' \<mapsto> bs])],
     disk := [''consensus'' \<mapsto> bs], signed_blocks := [(1, 0, demo_block 5)], calls := 5 \<rparr>"

lemma demo_response_parse:
  "prepare_response_deserialize_body (uint256_to_bytes (hash_of 94)) 1 0 0 =
     Inr \<lparr> prs_block_index = 1, prs_view_number = 0, prs_validator_index = 0, prs_preparation_hash = hash_of 94 \<rparr>"
  by (simp add: prepare_response_deserialize_body_def)

lemma demo_agree:
  assumes "ser (to_persisted demo_led_locked) = Some bs"
  shows "process_message (demo_env ser de) demo_response demo_proposed = (Inr (), demo_agreed bs)"
  using assms
  by (simp add: process_message_def on_prepare_response_def demo_eval
    has_seen_message_def mark_message_seen_def update_last_seen_message_def demo_response_parse prepare_response_validate_def
    demo_led_def demo_led_locked_def demo_agreed_def demo_proposed_def demo_response_def demo_commit_def demo_message_def
    commit_serialize_def)

lemma demo_reaches_primary:
  assumes "ser (to_persisted demo_led_locked) = Some bs"
  shows "height_run once (demo_env ser de) (demo_service 1) 1 (demo_agreed bs)"
proof -
  have "height_run once (demo_env ser de) (demo_service 1) 1 demo_proposed"
    by (rule reaches_proposal [OF demo_reaches_start(2) _ demo_propose]) (simp add: demo_start_fields)
  then show ?thesis by (rule reaches_message [OF _ demo_agree [where ser = ser, OF assms]])
qed

definition demo_closing :: consensus_context where
  "demo_closing = demo_led_locked \<lparr> seen_message_hashes := [hash_of 73],
     last_seen_messages := hm_insert 0 1 (last_seen_messages demo_led_locked),
     commits := [(0, demo_sig), (1, demo_sig)], commit_view_numbers := [(0, 0), (1, 0)],
     commit_invocations := [(0, invocation_script_from_signature demo_sig), (1, invocation_script_from_signature demo_sig)],
     round_state := Committed \<rparr>"

definition demo_closed :: "bytes \<Rightarrow> consensus_service" where
  "demo_closed bs = (demo_agreed bs) \<lparr> ctx := demo_closing \<lparr> seen_message_hashes := [hash_of 105, hash_of 73] \<rparr>,
     outbox := outbox (demo_agreed bs) @
       [(BlockCommitted 1 (demo_block 5) (demo_certificate 5), demo_closing, [''consensus'' \<mapsto> bs])],
     running := False, calls := 6 \<rparr>"

lemma demo_close:
  "process_message (demo_env ser de) (demo_commit 0) (demo_agreed bs) = (Inr (), demo_closed bs)"
  by (simp add: process_message_def on_commit_def demo_eval cache_commit_invocation_def
    has_seen_message_def mark_message_seen_def update_last_seen_message_def demo_hold prepare_block_data_def
    collect_commit_signatures_def set_running_def demo_certificate_def demo_closing_def demo_closed_def
    demo_led_def demo_led_locked_def demo_proposed_def demo_agreed_def demo_commit_def demo_message_def)

lemma demo_reaches_closed:
  assumes "ser (to_persisted demo_led_locked) = Some bs"
  shows "height_run once (demo_env ser de) (demo_service 1) 1 (demo_closed bs)"
  by (rule reaches_message [OF demo_reaches_primary [where ser = ser, OF assms] demo_close])

section \<open>A change of view\<close>

definition demo_change_vote :: change_view_message where
  "demo_change_vote = \<lparr> cv_block_index = 1, cv_view_number = 0, cv_validator_index = 1, cv_timestamp = 20000,
     cv_reason = Timeout, cv_rejected_hashes = [] \<rparr>"

definition demo_suspected :: consensus_service where
  "demo_suspected = demo_start 0 \<lparr> ctx := (ctx (demo_start 0)) \<lparr>
     last_seen_messages := hm_insert 1 1 (last_seen_messages (ctx (demo_start 0))),
     change_views := [(1, (1, Timeout))], last_change_view_timestamps := [(1, 20000)],
     change_view_invocations := [(1, invocation_script_from_signature demo_sig)],
     seen_message_hashes := [hash_of 50] \<rparr> \<rparr>"

lemma demo_change_vote_length: "length (change_view_serialize demo_change_vote) = 9"
  by (simp add: change_view_serialize_def demo_change_vote_def reason_carries_rejected_hashes_def)

lemma demo_change_vote_parse:
  "change_view_deserialize (change_view_serialize demo_change_vote) 1 0 1 = Inr demo_change_vote"
  using parses_change_view [of demo_change_vote] demo_change_vote_length
  by (simp add: parses_def change_view_deserialize_def demo_change_vote_def reason_carries_rejected_hashes_def
      reader_wf_new unread_new)

lemma demo_change_vote_ok: "change_view_validate demo_change_vote = Inr ()" "new_view_number demo_change_vote = Inr 1"
  by (simp_all add: change_view_validate_def new_view_number_def demo_change_vote_def checked_add_def)

lemma demo_suspect:
  "process_message (demo_env ser de) (demo_message 1 ChangeView (change_view_serialize demo_change_vote)) (demo_start 0)
     = (Inr (), demo_suspected)"
  by (simp add: process_message_def on_change_view_def demo_eval demo_change_vote_parse demo_change_vote_length
    demo_change_vote_ok reason_carries_rejected_hashes_def add_change_view_def cache_change_view_invocation_def
    has_enough_change_views_def demo_suspected_def demo_change_vote_def [THEN arg_cong, of cv_reason]
    demo_change_vote_def [THEN arg_cong, of cv_timestamp] 
    has_seen_message_def mark_message_seen_def update_last_seen_message_def  demo_message_def)

lemma demo_seen: "last_seen_messages (ctx (demo_start 0)) = [(0, 1), (1, 0)]"
  by (simp add: demo_start_def start_with_block_context_def demo_service_def new_with_signer_def with_context_and_signer_def
    and_then_def modify_ctx_def set_running_def context_new_def reset_for_new_block_def Let_def demo_validators_def
    seed_last_seen_def saturating_sub_def hm_defs)

lemma demo_failed:
  "validators c = demo_validators \<Longrightarrow> last_seen_messages c = [(1, 1), (0, 1)] \<Longrightarrow> block_index c = 1 \<Longrightarrow> count_failed c = 0"
  by (simp add: count_failed_def demo_validators_def saturating_sub_def hm_defs)

lemma demo_change:
  "view_number (ctx (snd (request_change_view (demo_env ser de) Timeout 20000 demo_suspected))) = 1"
  by (simp add: request_change_view_def demo_eval more_than_f_nodes_committed_or_lost_def demo_suspected_def
    count_committed_def demo_failed demo_seen add_change_view_def change_view_serialize_def reason_carries_rejected_hashes_def
    cache_change_view_invocation_def has_enough_change_views_def change_view_def reset_for_new_view_def)

section \<open>The runs in one environment\<close>

definition demo_world :: env where
  "demo_world = demo_env (\<lambda>_. Some [1]) (\<lambda>_. None)"

lemmas demo_world_reaches =
  demo_reaches [where ser = "\<lambda>_. Some [1]" and de = "\<lambda>_. None" and bs = "[1]", simplified, folded demo_world_def]
  demo_reaches_closed [where ser = "\<lambda>_. Some [1]" and de = "\<lambda>_. None" and bs = "[1]", simplified, folded demo_world_def]

end
