(* ===== verification/Dbft_Agreement.thy ===== *)
theory Dbft_Agreement
  imports Dbft_Scenario
begin

text \<open>
  What the round invariant means for users of the service: one block per height is signed, a
  Commit message is sent only when the protocol allows it and after the state is on disk, a
  committed block carries a quorum of valid signatures, and two nodes cannot commit different
  blocks unless more than F validators signed both.
\<close>

section \<open>Quorums\<close>

text \<open>
  A committee with a fault bound and a quorum size. Two quorums share more members than there
  may be faulty ones.
\<close>

locale byzantine_committee =
  fixes members :: "'v set" and faults quorum :: nat
  assumes finite_members: "finite members"
    and fault_bound: "members \<noteq> {} \<Longrightarrow> 3 * faults < card members"
    and quorum_size: "card members \<le> quorum + faults"
begin

lemma quorums_intersect:
  assumes "A \<subseteq> members" "B \<subseteq> members" "quorum \<le> card A" "quorum \<le> card B" "members \<noteq> {}"
  shows "faults < card (A \<inter> B)"
proof -
  have fin: "finite A" "finite B" using assms(1,2) finite_members finite_subset by auto
  have "card A + card B = card (A \<union> B) + card (A \<inter> B)" using card_Un_Int fin by blast
  moreover have "card (A \<union> B) \<le> card members" using assms(1,2) finite_members by (intro card_mono) auto
  ultimately show ?thesis using assms(3-5) fault_bound quorum_size by linarith
qed

lemma honest_in_both:
  assumes "A \<subseteq> members" "B \<subseteq> members" "quorum \<le> card A" "quorum \<le> card B" "members \<noteq> {}"
    and "card (members - honest) \<le> faults"
  obtains i where "i \<in> A" "i \<in> B" "i \<in> honest"
proof -
  have "\<not> A \<inter> B \<subseteq> members - honest"
    using quorums_intersect [OF assms(1-5)] assms(6) finite_members card_mono [of "members - honest" "A \<inter> B"] by auto
  then show ?thesis using assms(1) that by auto
qed

end

interpretation dbft: byzantine_committee "{..<validator_count c}" "quorum_f c" "quorum_m c"
  for c :: consensus_context
  by unfold_locales (auto simp: quorum_f_def quorum_m_def)

section \<open>Certificates of committed blocks\<close>

definition keys_match :: "env \<Rightarrow> consensus_service \<Rightarrow> bool" where
  "keys_match W s \<longleftrightarrow> (\<forall>d sig my v. my_index (ctx s) = Some my \<longrightarrow> get_validator (ctx s) my = Some v \<longrightarrow>
     own_signature W s d sig \<longrightarrow> length sig = 64 \<and> p256_verify (cry W) (point_data (public_key v)) d sig)"

definition key_signed :: "env \<Rightarrow> consensus_service \<Rightarrow> byte \<Rightarrow> uint256 \<Rightarrow> bytes \<Rightarrow> bool" where
  "key_signed W s i h sig \<longleftrightarrow> unat i < length (validators (ctx s))
     \<and> p256_verify (cry W) (point_data (public_key (validators (ctx s) ! unat i)))
         (to_le_bytes (network s) @ uint256_to_bytes h) sig"

lemma backed_key_signed:
  assumes "keys_match W s" "same_node s t" "validators c = validators (ctx t)" "my_index c = my_index (ctx t)"
    and "unat i < length (validators c)" "backed W t c h i sig"
  shows "key_signed W s i h sig"
proof -
  have "own_signature W t = own_signature W s" "block_sign_data t = block_sign_data s"
    using assms(2) by (simp_all add: fun_eq_iff own_signature_def block_sign_data_def same_node_def)
  with assms show ?thesis
    by (auto simp: backed_def verify_signature_def get_validator_def key_signed_def keys_match_def same_node_def
        block_sign_data_def split: if_splits)
qed

lemma collect_commits:
  assumes "wf_context W c"
  shows "(i, sig) \<in> set (collect_commit_signatures c) \<longleftrightarrow>
      hm_get (commits c) i = Some sig \<and> hm_get (commit_view_numbers c) i = Some (view_number c)"
    and "distinct (map fst (collect_commit_signatures c))"
    and "has_enough_commits c \<longleftrightarrow> quorum_m c \<le> length (collect_commit_signatures c)"
proof -
  have wf: "hm_wf (commits c)" using assms by (simp add: wf_context_def)
  have view: "hm_get (commits c) i = Some sig \<Longrightarrow> \<exists>v. hm_get (commit_view_numbers c) i = Some v" for i sig
    using assms by (auto simp: wf_context_def hm_contains_def)
  show "(i, sig) \<in> set (collect_commit_signatures c) \<longleftrightarrow>
      hm_get (commits c) i = Some sig \<and> hm_get (commit_view_numbers c) i = Some (view_number c)"
    using hm_in_get [OF wf, of i sig] hm_get_in [of "commits c" i sig] view [of i sig]
    by (auto simp: collect_commit_signatures_def commit_view_def)
  show "distinct (map fst (collect_commit_signatures c))"
    using wf by (simp add: collect_commit_signatures_def hm_wf_def hm_keys_def distinct_map_filter)
  show "has_enough_commits c \<longleftrightarrow> quorum_m c \<le> length (collect_commit_signatures c)"
    by (simp add: has_enough_commits_def collect_commit_signatures_def hm_keys_def filter_map comp_def case_prod_unfold)
qed

lemma available_complete:
  assumes "wf_context W c" "\<not> has_missing_proposed_transactions c"
  shows "set (proposed_tx_hashes c) = set (available_tx_hashes c)"
proof -
  have av: "distinct (available_tx_hashes c)" "set (available_tx_hashes c) \<subseteq> set (proposed_tx_hashes c)"
    using assms(1) by (auto simp: wf_context_def)
  show ?thesis
  proof (cases "proposed_tx_hashes c = []")
    case False
    then have "card (set (proposed_tx_hashes c)) \<le> card (set (available_tx_hashes c))"
      using assms(2) card_length [of "proposed_tx_hashes c"] distinct_card [OF av(1)]
      by (auto simp: has_missing_proposed_transactions_def hs_len_def)
    then show ?thesis using av(2) card_seteq by (metis List.finite_set)
  qed (use av in auto)
qed

definition signers :: "block_data \<Rightarrow> nat set" where
  "signers bd = (\<lambda>(i, _). unat i) ` set (bd_signatures bd)"

lemma block_event_certificate:
  assumes ev: "event_ok W t (BlockCommitted idx h data, c, d)" and node: "same_node s t" and keys: "keys_match W s"
  shows "h = context_header_hash W c" "set (proposed_tx_hashes c) = set (available_tx_hashes c)"
    and "bd_signatures data = sort_key fst (collect_commit_signatures c)" "idx = block_index c"
    and "\<forall>(i, sig) \<in> set (bd_signatures data). key_signed W s i h sig"
    and "distinct (map fst (bd_signatures data))"
    and "signers data \<subseteq> {..<validator_count (ctx s)}" "quorum_m (ctx s) \<le> card (signers data)"
proof -
  from ev have c: "wf_context W c" "validators c = validators (ctx t)" "my_index c = my_index (ctx t)"
      "proposed_block_hash c = Some h" "certified W t c" "has_enough_commits c"
      "\<not> has_missing_proposed_transactions c" "fst (prepare_block_data (t \<lparr> ctx := c \<rparr>)) = Inr data"
      "idx = block_index c"
    by (auto simp: event_ok_def block_event_ok_def)
  show "idx = block_index c" by (rule c(9))
  show "h = context_header_hash W c" using c(1,4) by (simp add: wf_context_def)
  show "set (proposed_tx_hashes c) = set (available_tx_hashes c)" by (rule available_complete [OF c(1,7)])
  show bd: "bd_signatures data = sort_key fst (collect_commit_signatures c)"
    using c(8) by (auto simp: prepare_block_data_def Let_def split: if_splits)
  note collect = collect_commits [OF c(1)]
  have vals: "validators c = validators (ctx s)" using c(2) node by (simp add: same_node_def)
  have inside: "unat i < length (validators c)" if "(i, sig) \<in> set (bd_signatures data)" for i sig
    using that c(1) collect(1) by (auto simp: bd wf_context_def hm_contains_def validator_count_def)
  then show "\<forall>(i, sig) \<in> set (bd_signatures data). key_signed W s i h sig"
    using backed_key_signed [OF keys node c(2,3)] collect(1) c(4,5) by (auto simp: bd certified_def)
  show dist: "distinct (map fst (bd_signatures data))"
    unfolding bd using collect(2) by (metis distinct_map distinct_sort inj_on_cong set_sort)
  show "signers data \<subseteq> {..<validator_count (ctx s)}"
    using inside vals by (auto simp: signers_def validator_count_def)
  have "card (signers data) = length (bd_signatures data)"
  proof -
    have "signers data = unat ` set (map fst (bd_signatures data))" by (force simp: signers_def)
    then have "card (signers data) = card (set (map fst (bd_signatures data)))"
      by (simp add: card_image inj_on_def word_unat_eq_iff)
    then show ?thesis using distinct_card [OF dist] by simp
  qed
  then show "quorum_m (ctx s) \<le> card (signers data)"
    using c(6) collect(3) vals by (simp add: bd quorum_m_def quorum_f_def validator_count_def)
qed

section \<open>The committee of two\<close>

lemma demo_keys_match: "i < 2 \<Longrightarrow> keys_match demo_world (demo_service i)"
  by (auto simp: keys_match_def demo_world_def own_signature_def demo_env_def demo_sig_def demo_service_def
      new_with_signer_def with_context_and_signer_def)

lemma nth_0_nat_to_le: "0 < n \<Longrightarrow> nat_to_le n x ! 0 = of_nat (x mod 256)"
  by (cases n) simp_all

lemma demo_blocks_differ: "demo_block 5 \<noteq> demo_block 6"
proof
  assume "demo_block 5 = demo_block 6"
  then have "uint256_to_bytes (demo_block 5) = uint256_to_bytes (demo_block 6)" by simp
  then show False
    by (simp add: demo_block_def uint256_to_from replicate_eq_replicate to_le_bytes_def nth_0_nat_to_le)
qed

lemmas demo_states = demo_done_def demo_voted_def demo_closed_def demo_agreed_def demo_proposed_def demo_commit_def
  demo_message_def set_witness_def payload_new_def demo_certificate_def

section \<open>Safety theorems\<close>

text \<open>
  C2: a validator commits itself to at most one block per height. Whatever messages, timer
  ticks, transactions and failures of the channel, the disk and the signer the service meets
  while it works on a height, it signs at most one block hash, it sends at most one Commit
  message, and both are for that height. The hypothesis \<open>orderly_reaches\<close> is that the host does
  not hand transactions to a primary that has already proposed in the view; the code does not
  check this, and without it a second block is signed.
\<close>

theorem one_commit_per_height:
  assumes "orderly_reaches W s0 idx s"
  shows "length (signed_blocks s) \<le> 1 \<and> length (filter commit_broadcast (outbox s)) \<le> 1
    \<and> fst ` set (signed_blocks s) \<subseteq> {idx}"
proof -
  have inv: "round_inv W s" "block_index (ctx s) = idx" using height_run_inv [OF assms] by auto
  have "locked s" using assms by (rule orderly_locked)
  then have "length (signed_blocks s) \<le> 1 \<and> fst ` set (signed_blocks s) \<subseteq> {idx}"
    using inv(2) by (auto simp: locked_def)
  then show ?thesis using inv(1) by (auto simp: round_inv_def events_ok_def)
qed

theorem one_commit_per_height_witness:
  "orderly_reaches demo_world (demo_service 0) 1 (demo_done [1] 5)
    \<and> signed_blocks (demo_done [1] 5) = [(1, 0, demo_block 5)]
    \<and> length (signed_blocks (demo_done [1] 5)) \<le> 1
    \<and> length (filter commit_broadcast (outbox (demo_done [1] 5))) \<le> 1"
  using one_commit_per_height [OF demo_world_reaches(2) [of True 5]] demo_world_reaches(2) [of True 5]
  by (simp add: demo_states)

text \<open>
  C5: what a Commit message stands for. When the service broadcasts its Commit, the proposal of
  the current view has been received, at least M validators (the primary and others than the
  primary, all listed) have prepared, every proposed transaction is available, the message is
  for the height and view in progress and carries the service's own signature over the hash of
  the proposed header, and this signature is recorded in the commit table.
\<close>

theorem commit_broadcast_gate:
  assumes "reaches W s0 idx s" and "(BroadcastMessage p, c, d) \<in> set (outbox s)" and "p_message_type p = Commit"
  shows "prepare_request_received c
    \<and> quorum_m (ctx s0) \<le> 1 + card {i. hm_contains (prepare_responses c) i}
    \<and> {i. hm_contains (prepare_responses c) i} \<subseteq> {i. unat i < validator_count (ctx s0) \<and> i \<noteq> primary_index c}
    \<and> set (proposed_tx_hashes c) = set (available_tx_hashes c)
    \<and> p_block_index p = idx \<and> p_view_number p = view_number c \<and> my_index (ctx s0) = Some (p_validator_index p)
    \<and> own_signature W s0 (block_sign_data s0 (context_header_hash W c)) (p_data p)
    \<and> hm_get (commits c) (p_validator_index p) = Some (p_data p)"
proof -
  have inv: "round_inv W s" "block_index (ctx s) = idx" "same_node s0 s" using height_run_inv [OF assms(1)] by auto
  then have ev: "event_ok W s (BroadcastMessage p, c, d)" using assms(2) by (auto simp: round_inv_def events_ok_def)
  have c: "wf_context W c" "validators c = validators (ctx s0)" "my_index c = my_index (ctx s0)" "block_index c = idx"
      "commit_event_ok W s p c d"
    using ev inv(2,3) assms(3) by (auto simp: event_ok_def same_node_def)
  have sign: "own_signature W s = own_signature W s0" "block_sign_data s = block_sign_data s0"
    using inv(3) by (simp_all add: fun_eq_iff own_signature_def block_sign_data_def same_node_def)
  have "hm_len (prepare_responses c) = card {i. hm_contains (prepare_responses c) i}"
    using hm.len_card [of "prepare_responses c"] c(1) by (simp add: wf_context_def hm_contains_def)
  then have "quorum_m (ctx s0) \<le> 1 + card {i. hm_contains (prepare_responses c) i}"
    using c(2,5)
    by (auto simp: commit_event_ok_def has_enough_prepare_responses_def quorum_m_def quorum_f_def validator_count_def)
  moreover have "set (proposed_tx_hashes c) = set (available_tx_hashes c)"
    using available_complete [OF c(1)] c(5) by (simp add: commit_event_ok_def)
  ultimately show ?thesis
    using c sign by (auto simp: commit_event_ok_def wf_context_def validator_count_def)
qed

theorem commit_broadcast_gate_witness:
  "reaches demo_world (demo_service 0) 1 (demo_done [1] 5)
    \<and> quorum_m (ctx (demo_service 0)) \<le> 1 + card {i. hm_contains (prepare_responses (demo_locked 5)) i}
    \<and> own_signature demo_world (demo_service 0)
        (block_sign_data (demo_service 0) (context_header_hash demo_world (demo_locked 5))) demo_sig"
  using commit_broadcast_gate [OF demo_world_reaches(2) [of _ 5], of "demo_commit 0" "demo_locked 5" "[''consensus'' \<mapsto> [1]]"]
    demo_world_reaches(2) [of _ 5]
  by (simp add: demo_states)

text \<open>
  C6: the commit is on disk before it is sent. With a state file configured, at the moment a
  Commit message is accepted by the channel the file holds the encoding of a round state that
  contains this very commit for the current view.
\<close>

theorem commit_saved_before_sent:
  assumes "reaches W s0 idx s" and "(BroadcastMessage p, c, d) \<in> set (outbox s)" and "p_message_type p = Commit"
    and "state_path s0 = Some file"
  shows "bincode_ser W (to_persisted c) = d file \<and> d file \<noteq> None
    \<and> hm_get (ps_commits (to_persisted c)) (p_validator_index p) = Some (p_data p)
    \<and> hm_contains (ps_commit_view_numbers (to_persisted c)) (p_validator_index p)"
proof -
  have inv: "round_inv W s" "same_node s0 s" using height_run_inv [OF assms(1)] by auto
  then have ev: "event_ok W s (BroadcastMessage p, c, d)" using assms(2) by (auto simp: round_inv_def events_ok_def)
  then have "commit_event_ok W s p c d" "wf_context W c" using assms(3) by (auto simp: event_ok_def)
  moreover have "state_path s = Some file" using inv(2) assms(4) by (simp add: same_node_def)
  ultimately show ?thesis
    by (auto simp: commit_event_ok_def saved_def wf_context_def to_persisted_def hm_contains_def split: option.splits)
qed

theorem commit_saved_before_sent_witness:
  "reaches demo_world (demo_service 0) 1 (demo_done [1] 5)
    \<and> bincode_ser demo_world (to_persisted (demo_locked 5)) = Some [1]
    \<and> hm_get (ps_commits (to_persisted (demo_locked 5))) 0 = Some demo_sig"
  using commit_saved_before_sent [OF demo_world_reaches(2) [of _ 5], of "demo_commit 0" "demo_locked 5" "[''consensus'' \<mapsto> [1]]"
      "''consensus''"] demo_world_reaches(2) [of _ 5]
  by (simp add: demo_states demo_service_def)

text \<open>
  C4: a committed block carries a quorum certificate. When the service reports a block as
  committed, the hash is that of the proposed header, all its transactions are available, the
  signatures handed over are by distinct validators in index order, each of them verifies over
  the block hash under the key of that validator, and there are at least M of them. The own
  signature is covered by the hypothesis that the signing key belongs to the service's entry in
  the validator list.
\<close>

theorem committed_block_certificate:
  assumes "reaches W s0 idx s" and "(BlockCommitted i h data, c, d) \<in> set (outbox s)" and "keys_match W s0"
  shows "i = idx \<and> h = context_header_hash W c \<and> set (proposed_tx_hashes c) = set (available_tx_hashes c)
    \<and> sorted (map fst (bd_signatures data)) \<and> distinct (map fst (bd_signatures data))
    \<and> (\<forall>(v, sig) \<in> set (bd_signatures data). key_signed W s0 v h sig)
    \<and> signers data \<subseteq> {..<validator_count (ctx s0)} \<and> quorum_m (ctx s0) \<le> card (signers data)"
proof -
  have inv: "round_inv W s" "block_index (ctx s) = idx" "same_node s0 s" using height_run_inv [OF assms(1)] by auto
  then have ev: "event_ok W s (BlockCommitted i h data, c, d)" using assms(2) by (auto simp: round_inv_def events_ok_def)
  moreover have "block_index c = idx" using ev inv(2) by (simp add: event_ok_def)
  ultimately show ?thesis
    using block_event_certificate [OF ev inv(3) assms(3)] by simp
qed

theorem committed_block_certificate_witness:
  "reaches demo_world (demo_service 0) 1 (demo_done [1] 5)
    \<and> demo_block 5 = context_header_hash demo_world (demo_final 5)
    \<and> key_signed demo_world (demo_service 0) 1 (demo_block 5) demo_sig
    \<and> quorum_m (ctx (demo_service 0)) \<le> card (signers (demo_certificate 5))"
  using committed_block_certificate [OF demo_world_reaches(2) [of _ 5], of 1 "demo_block 5" "demo_certificate 5" "demo_final 5"
      "[''consensus'' \<mapsto> [1]]"] demo_world_reaches(2) [of _ 5] demo_keys_match [of 0]
  by (auto simp: demo_states)

lemma reaches_listed: "height_run once W s0 idx s \<Longrightarrow> listed (ctx s0)"
  by (induction rule: height_run.induct) (auto simp: fresh_service_def)

lemma votes_card:
  assumes "wf_context W c"
  shows "length (filter (\<lambda>(v, _). new_view \<le> v) (hm_values (change_views c)))
    = card {i. unat i < validator_count c \<and> (\<exists>v r. hm_get (change_views c) i = Some (v, r) \<and> new_view \<le> v)}"
proof -
  let ?xs = "filter (\<lambda>(i, v, r). new_view \<le> v) (change_views c)"
  have wf: "hm_wf (change_views c)" using assms by (simp add: wf_context_def)
  have "distinct (map fst ?xs)" using wf by (simp add: hm_wf_def hm_keys_def distinct_map_filter)
  then have "length ?xs = card (fst ` set ?xs)" using distinct_card [of "map fst ?xs"] by simp
  also have "fst ` set ?xs = {i. unat i < validator_count c \<and> (\<exists>v r. hm_get (change_views c) i = Some (v, r) \<and> new_view \<le> v)}"
  proof -
    have "(i, v, r) \<in> set (change_views c) \<longleftrightarrow> hm_get (change_views c) i = Some (v, r)" for i v r
      using hm_in_get [OF wf] hm_get_in by metis
    moreover have "hm_get (change_views c) i = Some x \<Longrightarrow> unat i < validator_count c" for i x
      using assms by (simp add: wf_context_def hm_contains_def)
    ultimately show ?thesis by (fastforce simp: image_iff)
  qed
  finally show ?thesis by (simp add: hm_values_def filter_map comp_def case_prod_unfold)
qed

lemma committed_block_signers:
  assumes "reaches W s0 idx s" and "(BlockCommitted i h data, c, d) \<in> set (outbox s)" and "keys_match W s0"
  shows "signers data \<subseteq> {..<validator_count (ctx s0)}" "quorum_m (ctx s0) \<le> card (signers data)"
    and "v \<in> signers data \<Longrightarrow> \<exists>sig. (of_nat v, sig) \<in> set (bd_signatures data) \<and> key_signed W s0 (of_nat v) h sig"
proof -
  have inv: "round_inv W s" "same_node s0 s" using height_run_inv [OF assms(1)] by auto
  then have ev: "event_ok W s (BlockCommitted i h data, c, d)" using assms(2) by (auto simp: round_inv_def events_ok_def)
  note cert = block_event_certificate [OF ev inv(2) assms(3)]
  show "signers data \<subseteq> {..<validator_count (ctx s0)}" "quorum_m (ctx s0) \<le> card (signers data)"
    by (rule cert)+
  show "\<exists>sig. (of_nat v, sig) \<in> set (bd_signatures data) \<and> key_signed W s0 (of_nat v) h sig" if "v \<in> signers data"
    using that cert(5) by (fastforce simp: signers_def)
qed

lemma key_signed_cong:
  "validators (ctx t) = validators (ctx s) \<Longrightarrow> network t = network s \<Longrightarrow> cry X = cry W \<Longrightarrow>
   key_signed X t = key_signed W s"
  by (simp add: fun_eq_iff key_signed_def)

text \<open>
  The two certificates of conflicting blocks expose a validator: it has an entry in both, and each
  of the two signatures verifies under its key over the block hash of that certificate.
\<close>

definition exposed :: "env \<Rightarrow> consensus_service \<Rightarrow> uint256 \<Rightarrow> block_data \<Rightarrow> uint256 \<Rightarrow> block_data \<Rightarrow> nat \<Rightarrow> bool" where
  "exposed W s g bd h be v \<longleftrightarrow>
     (\<exists>sig. (of_nat v, sig) \<in> set (bd_signatures bd) \<and> key_signed W s (of_nat v) g sig)
     \<and> (\<exists>sig. (of_nat v, sig) \<in> set (bd_signatures be) \<and> key_signed W s (of_nat v) h sig)"

lemma shared_signers_exposed:
  assumes "reaches W a0 idx a" "keys_match W a0" "(BlockCommitted i g bd, c, d) \<in> set (outbox a)"
    and "reaches X b0 idx b" "keys_match X b0" "(BlockCommitted j h be, e, f) \<in> set (outbox b)"
    and "validators (ctx b0) = validators (ctx a0)" "network b0 = network a0" "cry X = cry W"
  shows "signers bd \<subseteq> {..<validator_count (ctx a0)}" "signers be \<subseteq> {..<validator_count (ctx a0)}"
    and "quorum_m (ctx a0) \<le> card (signers bd)" "quorum_m (ctx a0) \<le> card (signers be)"
    and "{..<validator_count (ctx a0)} \<noteq> {}"
    and "v \<in> signers bd \<Longrightarrow> v \<in> signers be \<Longrightarrow> exposed W a0 g bd h be v"
proof -
  note A = committed_block_signers [OF assms(1,3,2)] and B = committed_block_signers [OF assms(4,6,5)]
  have same: "key_signed X b0 = key_signed W a0" using assms(7-9) by (rule key_signed_cong)
  have cnt: "validator_count (ctx b0) = validator_count (ctx a0)" "quorum_m (ctx b0) = quorum_m (ctx a0)"
    using assms(7) by (simp_all add: validator_count_def quorum_m_def quorum_f_def)
  show "signers bd \<subseteq> {..<validator_count (ctx a0)}" "quorum_m (ctx a0) \<le> card (signers bd)" by (rule A)+
  show "signers be \<subseteq> {..<validator_count (ctx a0)}" "quorum_m (ctx a0) \<le> card (signers be)" using B(1,2) cnt by auto
  show "{..<validator_count (ctx a0)} \<noteq> {}" using reaches_listed [OF assms(1)] by (auto simp: listed_def split: option.splits)
  show "exposed W a0 g bd h be v" if "v \<in> signers bd" "v \<in> signers be"
    using A(3) [OF that(1)] B(3) [OF that(2)] unfolding exposed_def same by blast
qed

text \<open>
  C8: accountability. If two nodes of the same network with the same validators report
  different committed blocks for one height, more than F validators have a signature in each of
  the two certificates, and these signatures verify under their keys over the two block hashes.
\<close>

theorem conflicting_commits_expose_signers:
  assumes "reaches W a0 idx a" "keys_match W a0" "(BlockCommitted i g bd, c, d) \<in> set (outbox a)"
    and "reaches X b0 idx b" "keys_match X b0" "(BlockCommitted j h be, e, f) \<in> set (outbox b)"
    and "validators (ctx b0) = validators (ctx a0)" "network b0 = network a0" "cry X = cry W"
    and "g \<noteq> h"
  shows "quorum_f (ctx a0) < card {v. v < validator_count (ctx a0) \<and> exposed W a0 g bd h be v}"
proof -
  note S = shared_signers_exposed [OF assms(1-9)]
  have "quorum_f (ctx a0) < card (signers bd \<inter> signers be)"
    using dbft.quorums_intersect [OF S(1,2,3,4,5)] .
  also have "\<dots> \<le> card {v. v < validator_count (ctx a0) \<and> exposed W a0 g bd h be v}"
    using S(1,6) by (intro card_mono) auto
  finally show ?thesis .
qed

theorem conflicting_commits_expose_signers_witness:
  "reaches demo_world (demo_service 0) 1 (demo_done [1] 5) \<and> reaches demo_world (demo_service 0) 1 (demo_done [1] 6)
    \<and> demo_block 5 \<noteq> demo_block 6
    \<and> quorum_f (ctx (demo_service 0)) < card {v. v < validator_count (ctx (demo_service 0))
        \<and> exposed demo_world (demo_service 0) (demo_block 5) (demo_certificate 5) (demo_block 6) (demo_certificate 6) v}"
  using conflicting_commits_expose_signers [OF demo_world_reaches(2) [of _ 5] _ _ demo_world_reaches(2) [of _ 6],
      of 1 "demo_block 5" "demo_certificate 5" "demo_final 5" "[''consensus'' \<mapsto> [1]]"
      1 "demo_block 6" "demo_certificate 6" "demo_final 6" "[''consensus'' \<mapsto> [1]]"]
    demo_world_reaches(2) demo_keys_match [of 0] demo_blocks_differ
  by (simp add: demo_states)

text \<open>
  C1: agreement. Let at most F validators be faulty and let every other validator run this
  service for the height from its start, without a restart, under a host that does not hand
  transactions to a primary that has already proposed in the view. Suppose that a signature of
  such a validator in one of the two certificates, which verifies under its key over the block
  hash, was made by its run. Then two nodes never report different committed blocks for the height.
\<close>

theorem agreement:
  assumes "reaches W a0 idx a" "keys_match W a0" "(BlockCommitted i g bd, c, d) \<in> set (outbox a)"
    and "reaches X b0 idx b" "keys_match X b0" "(BlockCommitted j h be, e, f) \<in> set (outbox b)"
    and "validators (ctx b0) = validators (ctx a0)" "network b0 = network a0" "cry X = cry W"
    and honest: "\<And>v. v \<in> honest \<Longrightarrow> orderly_reaches (env_of v) (init_of v) idx (node v)"
    and faulty: "card ({..<validator_count (ctx a0)} - honest) \<le> quorum_f (ctx a0)"
    and unforgeable: "\<And>v x sig. v \<in> honest \<Longrightarrow>
        (x, of_nat v, sig) \<in> {g} \<times> set (bd_signatures bd) \<union> {h} \<times> set (bd_signatures be) \<Longrightarrow>
        key_signed W a0 (of_nat v) x sig \<Longrightarrow> \<exists>k w. (k, w, x) \<in> set (signed_blocks (node v))"
  shows "g = h"
proof -
  note S = shared_signers_exposed [OF assms(1-9)]
  obtain v where v: "v \<in> signers bd" "v \<in> signers be" "v \<in> honest"
    using dbft.honest_in_both [OF S(1,2,3,4,5) faulty] by blast
  obtain p q where p: "(of_nat v, p) \<in> set (bd_signatures bd)" "key_signed W a0 (of_nat v) g p"
      and q: "(of_nat v, q) \<in> set (bd_signatures be)" "key_signed W a0 (of_nat v) h q"
    using S(6) [OF v(1,2)] unfolding exposed_def by blast
  have "\<exists>k w. (k, w, g) \<in> set (signed_blocks (node v))"
    by (rule unforgeable [OF v(3) _ p(2)]) (use p(1) in simp)
  moreover have "\<exists>k w. (k, w, h) \<in> set (signed_blocks (node v))"
    by (rule unforgeable [OF v(3) _ q(2)]) (use q(1) in simp)
  moreover have "length (signed_blocks (node v)) \<le> 1"
    using orderly_locked [OF honest [OF v(3)]] by (auto simp: locked_def)
  ultimately show ?thesis by (cases "signed_blocks (node v)") auto
qed

theorem agreement_witness:
  "reaches demo_world (demo_service 0) 1 (demo_done [1] 5) \<and> reaches demo_world (demo_service 1) 1 (demo_closed [1])
    \<and> (\<exists>g h c d e f. (BlockCommitted 1 g (demo_certificate 5), c, d) \<in> set (outbox (demo_done [1] 5))
        \<and> (BlockCommitted 1 h (demo_certificate 5), e, f) \<in> set (outbox (demo_closed [1])) \<and> g = h)"
proof -
  let ?node = "\<lambda>v :: nat. if v = 0 then demo_done [1] 5 else demo_closed [1]"
  have "demo_block 5 = demo_block 5"
    by (rule agreement [OF demo_world_reaches(2) [of _ 5] demo_keys_match _ demo_world_reaches(3) demo_keys_match,
          where honest = "{0, 1}" and env_of = "\<lambda>_. demo_world" and init_of = "\<lambda>v. demo_service (of_nat v)" and node = ?node])
      (use demo_world_reaches in \<open>auto simp: demo_states demo_service_def new_with_signer_def with_context_and_signer_def
         context_new_def validator_count_def demo_validators_def\<close>)
  then show ?thesis using demo_world_reaches(2) [of _ 5] demo_world_reaches(3) by (auto simp: demo_states)
qed

text \<open>
  C3: every operation of a height refines the round protocol. A message, a timer tick, one or
  several transactions, a request to change the view or to recover and the settings that may
  change during a height are a finite sequence of moves of the abstract protocol, whatever the
  channel, the disk, the signer and the clock answer. When the operation is not a second proposal
  of the primary in its view, they are moves of the protocol without such proposals.
\<close>

theorem service_refines_protocol:
  assumes "within_height op" and "once \<Longrightarrow> orderly op s" and "wf_context W (ctx s)"
  shows "(round_step once W)\<^sup>*\<^sup>* s (perform W op s)"
  using perform_refines [OF assms(1,2)] assms(3) by (auto simp: refines_def tidy_def wf_context_def)

theorem service_refines_protocol_witness:
  "perform demo_world (ProcessMessage (demo_request 5)) (demo_start 0) = demo_voted [1] 5
    \<and> (round_step True demo_world)\<^sup>*\<^sup>* (demo_start 0) (demo_voted [1] 5)"
proof -
  have run: "perform demo_world (ProcessMessage (demo_request 5)) (demo_start 0) = demo_voted [1] 5"
    using demo_vote [where ser = "\<lambda>_. Some [1]" and de = "\<lambda>_. None" and n = 5 and bs = "[1]"] by (simp add: demo_world_def)
  have "wf_context demo_world (ctx (demo_start 0))"
    using height_run_inv [OF demo_reaches_start(1)] by (simp add: round_inv_def)
  then show ?thesis
    using service_refines_protocol [of "ProcessMessage (demo_request 5)" True "demo_start 0" demo_world] run by simp
qed

text \<open>
  C10: the round state stays well formed. In every state the service reaches, the tables of
  preparations, commits and votes hold at most one entry per listed validator, every commit has
  a view number, the primary is never counted as a responder, a received proposal has a block
  hash and this hash is the one of the stored header fields, and the available transactions are
  among the proposed ones.
\<close>

theorem round_state_well_formed:
  assumes "reaches W s0 idx s"
  shows "wf_context W (ctx s)"
  using height_run_inv [OF assms] by (simp add: round_inv_def)

theorem round_state_well_formed_witness:
  "reaches demo_world (demo_service 0) 1 (demo_voted [1] 5) \<and> wf_context demo_world (ctx (demo_voted [1] 5))"
  using round_state_well_formed demo_world_reaches(1) by blast

text \<open>
  C9: view changes need a quorum and are never undone. While the service works on a height, no
  step lowers the view number or changes the height, the validators or the own index, and a
  view other than the first (and the last representable one, where the next view number wraps
  around) is backed by at least M validators that voted for it or a higher one.
\<close>

theorem view_backed_by_quorum:
  assumes "reaches W s0 idx s" and "node_step W s t"
  shows "view_number (ctx s) \<le> view_number (ctx t) \<and> block_index (ctx t) = idx
    \<and> validators (ctx t) = validators (ctx s0) \<and> my_index (ctx t) = my_index (ctx s0)
    \<and> (view_number (ctx t) = 0 \<or> view_number (ctx t) = - 1 \<or>
        quorum_m (ctx s0) \<le> card {i. unat i < validator_count (ctx s0)
          \<and> (\<exists>v r. hm_get (change_views (ctx t)) i = Some (v, r) \<and> view_number (ctx t) \<le> v)})"
proof -
  have "rounds False W s t" using host_step_rounds [OF assms(2)] height_run_inv [OF assms(1)] by simp
  then have mono: "view_number (ctx s) \<le> view_number (ctx t)" using same_round_rounds by blast
  have t: "reaches W s0 idx t" using assms by (rule height_run.next_step)
  have inv: "round_inv W t" "block_index (ctx t) = idx" "same_node s0 t" using height_run_inv [OF t] by auto
  have "quorum_m (ctx s0) \<le> card {i. unat i < validator_count (ctx s0)
          \<and> (\<exists>v r. hm_get (change_views (ctx t)) i = Some (v, r) \<and> view_number (ctx t) \<le> v)}"
    if "has_enough_change_views (view_number (ctx t)) (ctx t)"
  proof -
    have wf: "wf_context W (ctx t)" using inv(1) by (simp add: round_inv_def)
    show ?thesis
      using votes_card [OF wf, of "view_number (ctx t)"] that inv(3)
      by (simp add: has_enough_change_views_def same_node_def validator_count_def quorum_m_def quorum_f_def)
  qed
  then show ?thesis using inv mono by (auto simp: round_inv_def view_backed_def same_node_def)
qed

theorem view_backed_by_quorum_witness:
  "\<exists>t. node_step demo_world demo_suspected t \<and> view_number (ctx t) = 1
    \<and> quorum_m (ctx (demo_service 0)) \<le> card {i. unat i < validator_count (ctx (demo_service 0))
        \<and> (\<exists>v r. hm_get (change_views (ctx t)) i = Some (v, r) \<and> view_number (ctx t) \<le> v)}"
proof -
  let ?t = "snd (request_change_view demo_world Timeout 20000 demo_suspected)"
  have "reaches demo_world (demo_service 0) 1 demo_suspected"
    by (rule reaches_message [OF demo_reaches_start(1) demo_suspect [of "\<lambda>_. Some [1]" "\<lambda>_. None", folded demo_world_def]])
  moreover have "node_step demo_world demo_suspected ?t"
    using host_step.operate [of "RequestChangeView Timeout 20000" False demo_suspected demo_world] by simp
  moreover have "view_number (ctx ?t) = 1" by (simp add: demo_world_def demo_change)
  ultimately show ?thesis using view_backed_by_quorum [of demo_world "demo_service 0" 1 demo_suspected ?t] by auto
qed

end
