(* ===== verification/Dbft_Reproposal.thy ===== *)
theory Dbft_Reproposal
  imports Dbft_Agreement
begin

text \<open>
  Why the host has to be careful: a concrete height of a committee of four validators in which the
  primary is handed transactions a second time after it has sent its Commit. The parameters are as
  in \<open>Dbft_Scenario\<close>, except that a signature depends on the signed bytes (it repeats the last one),
  that payload hashes depend on the sender, and that the random numbers change. Validator 1 is the
  primary of view 0 of height 1.
\<close>

section \<open>The committee\<close>


definition quad_sig :: "byte \<Rightarrow> bytes" where
  "quad_sig b = replicate 64 b"




















lemma quad_sig_props [simp]: "quad_sig b \<noteq> []" "length (quad_sig b) = 64" "quad_sig a = quad_sig b \<longleftrightarrow> a = b"
  by (simp_all add: quad_sig_def replicate_eq_replicate)


section \<open>The height\<close>























end
