(* ===== verification/Dbft_Faults.thy ===== *)
theory Dbft_Faults
  imports Dbft_Scenario
begin

text \<open>
  Behaviour at the edges: restart from the state file after a crash, events the channel does not
  accept, messages that are not authentic or were seen before, and committees of one member.
\<close>

section \<open>Under a careful host a recorded own commit is kept\<close>

definition bound :: "consensus_service \<Rightarrow> bool" where
  "bound s \<longleftrightarrow> (\<exists>my v. my_index (ctx s) = Some my \<and> unat my < validator_count (ctx s)
     \<and> hm_contains (commits (ctx s)) my \<and> hm_get (commit_view_numbers (ctx s)) my = Some v
     \<and> v \<le> view_number (ctx s) \<and> (v = view_number (ctx s) \<longrightarrow> prepare_request_received (ctx s)))"

definition silent :: "consensus_service \<Rightarrow> bool" where
  "silent s \<longleftrightarrow> signed_blocks s = [] \<and> filter commit_broadcast (outbox s) = []"

lemma bound_recorded: "bound s \<Longrightarrow> own_commit_recorded (ctx s) \<and> listed (ctx s)"
  by (auto simp: bound_def own_commit_recorded_def listed_def)

lemma bound_frame:
  assumes "bound s" "validators (ctx t) = validators (ctx s)" "my_index (ctx t) = my_index (ctx s)"
    and "\<And>my v. my_index (ctx s) = Some my \<Longrightarrow> hm_contains (commits (ctx s)) my \<Longrightarrow>
      hm_get (commit_view_numbers (ctx s)) my = Some v \<Longrightarrow> v \<le> view_number (ctx s) \<Longrightarrow>
      v = view_number (ctx s) \<longrightarrow> prepare_request_received (ctx s) \<Longrightarrow>
      hm_contains (commits (ctx t)) my \<and> hm_get (commit_view_numbers (ctx t)) my = Some v
      \<and> v \<le> view_number (ctx t) \<and> (v = view_number (ctx t) \<longrightarrow> prepare_request_received (ctx t))"
  shows "bound t"
proof -
  obtain my v where b: "my_index (ctx s) = Some my" "unat my < validator_count (ctx s)"
      "hm_contains (commits (ctx s)) my" "hm_get (commit_view_numbers (ctx s)) my = Some v"
      "v \<le> view_number (ctx s)" "v = view_number (ctx s) \<longrightarrow> prepare_request_received (ctx s)"
    using assms(1) by (auto simp: bound_def)
  from assms(4) [OF b(1,3-6)] b(1,2) assms(2,3) show ?thesis
    unfolding bound_def validator_count_def by auto
qed

lemma bound_step: "round_step True W s t \<Longrightarrow> bound s \<Longrightarrow> bound t"
proof (induction rule: round_step.induct)
  case (unlisted s xs n)
  then show ?case using bound_recorded by simp
next
  case (commit i s view sig c)
  then show ?case by (intro bound_frame [OF commit.prems]) (auto simp: same_core_def record_commit_def)
next
  case (new_view s v ts c)
  then show ?case
    by (intro bound_frame [OF new_view.prems]) (auto simp: same_core_def reset_for_new_view_def Let_def)
next
  case (propose s available hs ts r no P c)
  have "proposed_block_hash c \<noteq> None" using propose.hyps(6) by (simp add: same_core_def install_def Let_def)
  then obtain h where h: "proposed_block_hash (ctx (s \<lparr> ctx := c \<rparr>)) = Some h" by auto
  obtain d where d: "revalidate_current_view_commits W (s \<lparr> ctx := c \<rparr>) = s \<lparr> ctx := d \<rparr>"
    "same_core (c \<lparr> commits := commits d, commit_view_numbers := commit_view_numbers d \<rparr>) d"
    using revalidate_frame [of W "s \<lparr> ctx := c \<rparr>"] by auto
  have "pruned W (s \<lparr> ctx := c \<rparr>) h UNIV (s \<lparr> ctx := d \<rparr>)" using revalidate_pruned [OF h, of W] d by simp
  then have "bound (s \<lparr> ctx := d \<rparr>)"
    using propose.hyps(1,6) d(2)
    by (intro bound_frame [OF propose.prems])
      (auto simp: same_core_def install_def Let_def pruned_def stale_def hm_contains_def split: option.split)
  then show ?case using d(1) by simp
next
  case (own_commit s my h sig c evs d n)
  then show ?case using bound_recorded by (simp add: commit_gate_def)
qed (rule bound_frame, assumption; simp add: same_core_def)+

lemma silent_step:
  "round_step once W s t \<Longrightarrow> listed (ctx s) \<Longrightarrow> \<not> commit_gate (ctx s) \<Longrightarrow> silent s \<Longrightarrow> silent t"
proof (induction rule: round_step.induct)
  case (unlisted s xs n)
  then show ?case by simp
next
  case (tell e s n)
  then show ?case by (cases e) (auto simp: silent_def)
next
  case (propose s available hs ts r no P c)
  then show ?case using revalidate_frame [of W "s \<lparr> ctx := c \<rparr>"] by (auto simp: silent_def)
next
  case (own_commit s my h sig c evs d n)
  then show ?case by simp
next
  case (finish s c evs n b)
  then show ?case by (auto simp: silent_def)
qed (simp_all add: silent_def)

lemma bound_gate: "bound s \<Longrightarrow> \<not> commit_gate (ctx s)"
  using bound_recorded by (auto simp: commit_gate_def)

lemma bound_rounds: "rounds True W s t \<Longrightarrow> bound s \<Longrightarrow> silent s \<Longrightarrow> bound t \<and> silent t"
  by (induction rule: rtranclp_induct) (auto intro: bound_step silent_step dest: bound_recorded bound_gate)

section \<open>Restart after a crash\<close>

lemma check_prepare_responses_recorded:
  "own_commit_recorded (ctx s) \<Longrightarrow> check_prepare_responses W s = (Inr (), s)"
  by (simp add: check_prepare_responses_def ok_def)

lemma resume_commits:
  assumes "tidy s" "bound s" "silent s" "prepare_request_received (ctx s)" "my_index (ctx s) \<noteq> None"
    and "resume_with_next_consensus W ts prev next ver s = (r, t)"
  shows "tidy t \<and> bound t \<and> silent t \<and> my_index (ctx t) = my_index (ctx s)"
proof -
  define u where "u = s \<lparr> ctx := (ctx s) \<lparr> prev_hash := prev, next_consensus := next, version := ver,
      view_start_time := ts, round_state := (if is_primary (ctx s) then Primary else Backup) \<rparr>, running := True \<rparr>"
  have u: "tidy u" "bound u" "silent u" "prepare_request_received (ctx u)"
    using assms(1-4) by (auto simp: u_def tidy_def bound_def silent_def validator_count_def)
  have "resume_with_next_consensus W ts prev next ver s =
      and_then (check_prepare_responses W) (\<lambda>_. check_commits W) u"
    using assms(5) by (auto simp: resume_with_next_consensus_def and_then_def modify_ctx_def set_running_def u_def)
  also have "\<dots> = check_commits W u"
    using check_prepare_responses_recorded bound_recorded [OF u(2)] by (simp add: and_then_def)
  finally have "t = snd (check_commits W u)" using assms(6) by (metis snd_conv)
  then have "rounds True W u t" using check_commits_refines [of u True W] u(1,4) by (simp add: refines_def)
  then have "bound t \<and> silent t" "tidy t" "my_index (ctx t) = my_index (ctx u)"
    using bound_rounds tidy_rounds same_round_rounds u by (blast, blast, auto simp: same_round_def)
  then show ?thesis by (simp add: u_def)
qed

lemma orderly_run_bound:
  assumes "orderly_run W s t" "tidy s" "bound s" "silent s"
  shows "bound t \<and> silent t \<and> my_index (ctx t) = my_index (ctx s)"
  using host_run_rounds [OF assms(1,2)] bound_rounds same_round_rounds assms(3,4) by (auto simp: same_round_def)

text \<open>
  For the concrete run, a store that can encode exactly the state which validator 0 saves, and the
  process that starts from its file.
\<close>

definition demo_store :: env where
  "demo_store = demo_env (\<lambda>x. if x = to_persisted (demo_locked 5) then Some [1] else None)
     (\<lambda>_. Some (to_persisted (demo_locked 5)))"

definition demo_restarted :: consensus_service where
  "demo_restarted = (demo_service 0) \<lparr> disk := [''consensus'' \<mapsto> [1]] \<rparr>"

lemma demo_store_law: "bincode_ser demo_store x = Some bs \<Longrightarrow> bincode_de demo_store bs = Some x"
  by (simp add: demo_store_def demo_env_fields split: if_splits)

lemma demo_resume:
  "\<exists>r. try_load_and_resume demo_store 1 30000 (UInt256 9 0 0 0) (UInt160 7 0 0) 0 demo_restarted = (Inr True, r)"
  by (simp add: try_load_and_resume_def demo_restarted_def demo_service_def new_with_signer_def with_context_and_signer_def
      context_new_def demo_store_def demo_env_fields context_from_bytes_def from_persisted_def to_persisted_def
      demo_locked_def demo_prepared_def demo_eval resume_with_next_consensus_def set_running_def)

text \<open>
  C7: a crash does not make a validator sign twice. Suppose the service broadcast its Commit
  for a height, crashed with the files as they were at that moment, and a new process with the
  same validator entry resumes from the state file. Then, under a host that does not hand
  transactions to a primary that has already proposed in the view (\<open>orderly_run\<close>), the new process
  keeps the commit it finds in the file and neither signs a block nor sends a Commit message while
  it works on this height. The hypothesis on bincode is that decoding inverts encoding.
\<close>

theorem resume_never_signs_again:
  assumes "reaches W s0 idx s" and "(BroadcastMessage p, c, d) \<in> set (outbox s)" and "p_message_type p = Commit"
    and "state_path s0 = Some file"
    and "state_path r0 = Some file" "disk r0 file = d file" "validators (ctx r0) = validators (ctx s0)"
      "my_index (ctx r0) = my_index (ctx s0)" "outbox r0 = []" "signed_blocks r0 = []"
    and "\<And>x bs. bincode_ser W x = Some bs \<Longrightarrow> bincode_de X bs = Some x"
    and "try_load_and_resume X idx ts prev next ver r0 = (Inr True, r)"
    and "orderly_run X r t"
  shows "signed_blocks t = [] \<and> filter commit_broadcast (outbox t) = []
    \<and> hm_contains (commits (ctx t)) (p_validator_index p)"
proof -
  have inv: "round_inv W s" "same_node s0 s" "block_index (ctx s) = idx" using height_run_inv [OF assms(1)] by auto
  then have ev: "event_ok W s (BroadcastMessage p, c, d)" using assms(2) by (auto simp: round_inv_def events_ok_def)
  then have c: "commit_event_ok W s p c d" "wf_context W c" using assms(3) by (auto simp: event_ok_def)
  obtain bs where bs: "bincode_ser W (to_persisted c) = Some bs" "d file = Some bs"
    using c(1) inv(2) assms(4) by (auto simp: commit_event_ok_def saved_def same_node_def split: option.splits)
  define l where "l = (from_persisted (to_persisted c) (validators (ctx r0)) (my_index (ctx r0)))
      \<lparr> expected_block_time := expected_block_time (ctx r0) \<rparr>"
  define u where "u = (next_call r0) \<lparr> ctx := l \<rparr>"
  have my: "my_index (ctx s0) = Some (p_validator_index p)" "unat (p_validator_index p) < validator_count c"
      "validators c = validators (ctx s0)"
    using c ev inv(2)
    by (auto simp: commit_event_ok_def event_ok_def same_node_def wf_context_def hm_contains_def)
  have "tidy u" "bound u" "silent u" "prepare_request_received (ctx u)" "my_index (ctx u) = Some (p_validator_index p)"
    using c my assms(7-10)
    by (auto simp: u_def l_def next_call_def from_persisted_def to_persisted_def tidy_def bound_def silent_def
        commit_event_ok_def wf_context_def hm_contains_def validator_count_def)
  moreover obtain q where "resume_with_next_consensus X ts prev next ver u = (q, r)"
    using assms(5,6,11,12) bs
    by (auto simp: try_load_and_resume_def context_from_bytes_def and_then_def modify_ctx_def ok_def u_def l_def
        next_call_def split: if_splits prod.splits sum.splits)
  ultimately have "tidy r" "bound r" "silent r" "my_index (ctx r) = Some (p_validator_index p)"
    using resume_commits [of u X] by auto
  then have "bound t \<and> silent t \<and> my_index (ctx t) = Some (p_validator_index p)"
    using orderly_run_bound [OF assms(13)] by simp
  then show ?thesis by (auto simp: bound_def silent_def)
qed

theorem resume_never_signs_again_witness:
  "\<exists>r t. try_load_and_resume demo_store 1 30000 (UInt256 9 0 0 0) (UInt160 7 0 0) 0 demo_restarted = (Inr True, r)
    \<and> orderly_run demo_store r t \<and> signed_blocks t = [] \<and> filter commit_broadcast (outbox t) = []"
proof -
  have saved: "reaches demo_store (demo_service 0) 1 (demo_voted [1] 5)"
    unfolding demo_store_def by (rule demo_reaches(1)) simp
  obtain r where r: "try_load_and_resume demo_store 1 30000 (UInt256 9 0 0 0) (UInt160 7 0 0) 0 demo_restarted = (Inr True, r)"
    using demo_resume by blast
  let ?t = "snd (process_message demo_store (demo_commit 1) r)"
  have "orderly_run demo_store r ?t"
    using host_step.operate [of "ProcessMessage (demo_commit 1)" True r demo_store] by (intro r_into_rtranclp) simp
  moreover have "signed_blocks ?t = [] \<and> filter commit_broadcast (outbox ?t) = [] \<and> hm_contains (commits (ctx ?t)) 0"
    using resume_never_signs_again [OF saved _ _ _ _ _ _ _ _ _ demo_store_law r calculation,
        of "demo_commit 0" "demo_locked 5" "[''consensus'' \<mapsto> [1]]" "''consensus''"]
    by (simp add: demo_voted_def demo_restarted_def demo_service_def new_with_signer_def with_context_and_signer_def
        demo_commit_def demo_message_def set_witness_def payload_new_def)
  ultimately show ?thesis using r by blast
qed

section \<open>Committees of one member\<close>

lemma single_silent:
  assumes "rounds once W s t" "listed (ctx s)" "validator_count (ctx s) = 1" "silent s"
  shows "silent t"
  using assms
proof (induction rule: rtranclp_induct)
  case (step t u)
  then have "same_round s t" using same_round_rounds by blast
  then have "listed (ctx t)" "validator_count (ctx t) = 1"
    using step.prems listed_cong [of "ctx t" "ctx s"] by (auto simp: same_round_def validator_count_def)
  then have "\<not> commit_gate (ctx t)"
    by (auto simp: commit_gate_def has_peers_def listed_def unat_eq_zero split: option.splits)
  then show ?case using silent_step [OF step.hyps(2)] step \<open>listed (ctx t)\<close> by blast
qed

text \<open>
  C14: a committee with one validator makes no progress. Started as the only validator, the
  service never signs a block and never sends a Commit message by the operations of the height:
  the preparation check that would do so is reached only from the handlers of other validators'
  messages and of backups, and from the operations that resume a height, but not from the
  primary's own proposal.
\<close>

theorem single_validator_never_commits:
  assumes "reaches W s0 idx s" and "validator_count (ctx s0) = 1"
  shows "signed_blocks s = [] \<and> filter commit_broadcast (outbox s) = []"
proof -
  have "silent s \<and> listed (ctx s) \<and> validator_count (ctx s) = 1"
    using assms
  proof (induction rule: height_run.induct)
    case (begin_height ts prev prev_ts nxt ver s)
    then show ?case
      using start_inv [OF begin_height.hyps] by (simp add: silent_def round_inv_def same_node_def validator_count_def)
  next
    case (next_step s t)
    have "reaches W s0 idx t" using next_step.hyps by (rule height_run.next_step)
    then have "listed (ctx t)" "same_node s0 t" using height_run_inv by (auto simp: round_inv_def)
    moreover have "rounds False W s t"
      using host_step_rounds [OF next_step.hyps(2)] height_run_inv [OF next_step.hyps(1)] by simp
    ultimately show ?case
      using single_silent next_step by (auto simp: same_node_def validator_count_def)
  qed
  then show ?thesis by (simp add: silent_def)
qed

theorem single_validator_never_commits_witness:
  "\<exists>s0 s t. reaches demo_world s0 1 s \<and> validator_count (ctx s0) = 1 \<and> node_step demo_world s t
    \<and> signed_blocks t = [] \<and> filter commit_broadcast (outbox t) = []"
proof -
  let ?one = "new_with_signer 5195086 [hd demo_validators] (Some 0) (replicate 32 0) False"
  let ?s = "snd (start_with_block_context 1 10000 (UInt256 9 0 0 0) 9000 (UInt160 7 0 0) 0 ?one)"
  have fresh: "fresh_service ?one"
    by (simp add: fresh_service_def new_with_signer_def with_context_and_signer_def listed_def context_new_def validator_count_def)
  have started: "start_with_block_context 1 10000 (UInt256 9 0 0 0) 9000 (UInt160 7 0 0) 0 ?one = (Inr (), ?s)"
    by (simp add: start_with_block_context_def new_with_signer_def with_context_and_signer_def and_then_def
        modify_ctx_def set_running_def context_new_def)
  have s: "reaches demo_world ?one 1 ?s" by (rule height_run.begin_height [OF fresh started])
  have step: "node_step demo_world ?s (snd (on_transactions_received demo_world [] ?s))"
    using host_step.operate [of "OnTransactionsReceived []" False ?s demo_world] by simp
  have "validator_count (ctx ?one) = 1"
    by (simp add: new_with_signer_def with_context_and_signer_def context_new_def validator_count_def)
  then show ?thesis using single_validator_never_commits [OF height_run.next_step [OF s step]] s step by blast
qed

section \<open>Lost events\<close>

fun block_event :: "consensus_event \<times> consensus_context \<times> file_system \<Rightarrow> bool" where
  "block_event (BlockCommitted _ _ _, _, _) = True"
| "block_event _ = False"

lemma wf_context_world: "cry X = cry W \<Longrightarrow> wf_context X c = wf_context W c"
  by (simp add: wf_context_def context_header_hash_def compute_header_hash_def compute_merkle_root_def)

text \<open>The round is closed and nothing is reported as long as the view stays.\<close>

definition closed_since :: "consensus_service \<Rightarrow> consensus_service \<Rightarrow> bool" where
  "closed_since t u \<longleftrightarrow> view_number (ctx t) < view_number (ctx u)
     \<or> view_number (ctx u) = view_number (ctx t) \<and> round_state (ctx u) = Committed
       \<and> filter block_event (outbox u) = filter block_event (outbox t)"

lemma closed_since_step:
  assumes "round_step once W s u" "closed_since t s"
  shows "closed_since t u"
proof (cases "view_number (ctx t) < view_number (ctx s)")
  case True
  then show ?thesis using same_round_step [OF assms(1)] by (auto simp: closed_since_def)
next
  case False
  with assms show ?thesis
  proof (induction rule: round_step.induct)
    case (tell e s n)
    then show ?case by (cases e) (auto simp: closed_since_def)
  next
    case (propose s available hs ts r no P c)
    then show ?case
      using revalidate_frame [of W "s \<lparr> ctx := c \<rparr>"]
      by (auto simp: closed_since_def same_core_def install_def Let_def)
  next
    case (new_view s v ts c)
    then show ?case by (auto simp: closed_since_def same_core_def reset_for_new_view_def Let_def)
  qed (auto simp: closed_since_def same_core_def record_commit_def commit_gate_def)
qed

lemma closed_since_rounds: "rounds once W s u \<Longrightarrow> closed_since t s \<Longrightarrow> closed_since t u"
  by (induction rule: rtranclp_induct) (auto intro: closed_since_step)

text \<open>
  C15: a committed block whose event the channel refuses is not reported in its view. If the
  commit quorum is complete and the channel is full, \<^verbatim>\<open>check_commits\<close> fails with a channel error and
  emits nothing, but it has already marked the round as committed. Whatever operations of the
  height follow, also with the channel free again, no block is reported as long as the view stays
  the same; only a change of view, or resuming or restarting the height, opens the round again.
\<close>

theorem refused_block_event_is_lost:
  assumes "wf_context W (ctx s)" "has_enough_commits (ctx s)" "\<not> has_missing_proposed_transactions (ctx s)"
    and "round_state (ctx s) \<noteq> Committed" "\<not> channel_ok W (calls s)"
  shows "\<exists>t. check_commits W s = (Inl ChannelSendError, t) \<and> outbox t = outbox s \<and> running t = running s
    \<and> round_state (ctx t) = Committed \<and> view_number (ctx t) = view_number (ctx s)
    \<and> (\<forall>u. node_run W t u \<longrightarrow> view_number (ctx u) = view_number (ctx s) \<longrightarrow>
          round_state (ctx u) = Committed \<and> filter block_event (outbox u) = filter block_event (outbox s))"
proof -
  define c where "c = (ctx s) \<lparr> round_state := Committed \<rparr>"
  define t where "t = next_call (s \<lparr> ctx := c \<rparr>)"
  have "quorum_m c \<le> length (collect_commit_signatures c)"
    using assms(2)
    by (simp add: c_def has_enough_commits_def quorum_m_def quorum_f_def validator_count_def commit_view_def
        collect_commit_signatures_def hm_keys_def filter_map comp_def case_prod_unfold cong: option.case_cong)
  then obtain data where "prepare_block_data (s \<lparr> ctx := c \<rparr>) = (Inr data, s \<lparr> ctx := c \<rparr>)"
    by (auto simp: prepare_block_data_def Let_def)
  then have fails: "check_commits W s = (Inl ChannelSendError, t)"
    using assms by (simp add: check_commits_def and_then_def modify_ctx_def c_def t_def send_event_def next_call_def)
  have "tidy t" using assms(1) by (simp add: t_def c_def next_call_def tidy_def wf_context_def)
  then have closed: "closed_since t u" if "node_run W t u" for u
    using closed_since_rounds [OF host_run_rounds [OF that]] by (simp add: closed_since_def t_def c_def next_call_def)
  have "round_state (ctx u) = Committed \<and> filter block_event (outbox u) = filter block_event (outbox s)"
    if "node_run W t u" "view_number (ctx u) = view_number (ctx s)" for u
    using closed [OF that(1)] that(2) by (simp add: closed_since_def t_def c_def next_call_def)
  with fails show ?thesis by (intro exI [of _ t]) (simp add: t_def c_def next_call_def)
qed

theorem refused_block_event_is_lost_witness:
  "\<exists>W s t. has_enough_commits (ctx s) \<and> channel_ok W (Suc (calls s))
    \<and> check_commits W s = (Inl ChannelSendError, t)
    \<and> filter block_event (outbox (perform W (OnTransaction uint256_zero) t)) = []"
proof -
  let ?W = "demo_world \<lparr> channel_ok := \<lambda>k. k \<noteq> 4 \<rparr>"
  let ?s = "(demo_voted [1] 5) \<lparr> ctx := (demo_final 5) \<lparr> round_state := Backup \<rparr> \<rparr>"
  have "wf_context demo_world (ctx (demo_done [1] 5))"
    using height_run_inv [OF demo_world_reaches(2)] by (simp add: round_inv_def)
  moreover have "same_core (ctx (demo_done [1] 5)) (demo_final 5)" by (simp add: demo_done_def same_core_def)
  ultimately have wf: "wf_context ?W (ctx ?s)"
    using wf_context_core [of _ "demo_final 5"] wf_context_world [of ?W demo_world] by simp
  have "has_enough_commits (ctx ?s)" "\<not> has_missing_proposed_transactions (ctx ?s)" "calls ?s = 4"
    by (simp_all add: demo_final_def demo_locked_def demo_prepared_def has_enough_commits_def
        has_missing_proposed_transactions_def demo_start_fields demo_quorum hm_defs commit_view_def demo_voted_def)
  then obtain t where t: "check_commits ?W ?s = (Inl ChannelSendError, t)" "round_state (ctx t) = Committed"
      "view_number (ctx t) = view_number (ctx ?s)" "\<And>u. node_run ?W t u \<Longrightarrow> view_number (ctx u) = view_number (ctx ?s) \<Longrightarrow>
         filter block_event (outbox u) = filter block_event (outbox ?s)"
    using refused_block_event_is_lost [OF wf] by auto
  let ?u = "perform ?W (OnTransaction uint256_zero) t"
  have same: "?u = t" using t(2) by (simp add: on_transaction_def ok_def)
  have "node_run ?W t ?u"
    using host_step.operate [of "OnTransaction uint256_zero" False t ?W] by (intro r_into_rtranclp) simp
  then have "filter block_event (outbox ?u) = filter block_event (outbox ?s)" using t(3,4) same by simp
  then show ?thesis
    using t(1) \<open>has_enough_commits (ctx ?s)\<close> \<open>calls ?s = 4\<close>
    by (intro exI [of _ ?W] exI [of _ ?s] exI [of _ t]) (simp add: demo_voted_def)
qed

section \<open>Messages that must not count\<close>

definition authentic :: "env \<Rightarrow> consensus_service \<Rightarrow> consensus_payload \<Rightarrow> bool" where
  "authentic W s p =
     (case dbft_payload_hash W s p of
        Inr h \<Rightarrow> verify_signature W s (to_le_bytes (network s) @ uint256_to_bytes h) (p_witness p) (p_validator_index p)
      | Inl _ \<Rightarrow> False)"

text \<open>
  C11: only authentic, new messages for the current height change anything. If the payload does
  not carry a 64-byte signature of the listed validator it names, or is for another height, or
  its hash is in the replay cache, or the service is stopped, the service after
  \<^verbatim>\<open>process_message\<close> is the service before it.
\<close>

theorem unauthentic_message_ignored:
  assumes "\<not> authentic W s p \<or> p_block_index p \<noteq> block_index (ctx s) \<or> \<not> running s
    \<or> (\<exists>h. dbft_payload_hash W s p = Inr h \<and> h \<in> set (seen_message_hashes (ctx s)))"
  shows "snd (process_message W p s) = s"
proof (cases "dbft_payload_hash W s p")
  case (Inl e)
  then show ?thesis by (simp add: process_message_def and_then_def from_result_def ok_def)
next
  case (Inr h)
  have "p_witness p = [] \<Longrightarrow> \<not> authentic W s p"
    using Inr by (simp add: authentic_def verify_signature_def split: option.split)
  with Inr assms show ?thesis
    by (auto simp: process_message_def and_then_def from_result_def ok_def authentic_def has_seen_message_def)
qed

theorem unauthentic_message_ignored_witness:
  "snd (process_message demo_world ((demo_commit 1) \<lparr> p_witness := [0] \<rparr>) (demo_voted [1] 5)) = demo_voted [1] 5"
  using unauthentic_message_ignored [of demo_world "demo_voted [1] 5" "(demo_commit 1) \<lparr> p_witness := [0] \<rparr>"]
  by (simp add: authentic_def verify_signature_def split: option.split sum.split)

end
