(* ===== verification/Spec2Isabelle.thy ===== *)
theory Spec2Isabelle
  imports Dbft_Reproposal Dbft_Faults
begin

text \<open>
  Verification library for the Neo N3 node \<^verbatim>\<open>neo-rs\<close>. It models the consensus core of the node and
  what it stands on, and proves what makes them correct.

  \<^bold>\<open>The program and its parts.\<close> A validator runs the dBFT consensus service
  (\<^verbatim>\<open>src/neo-consensus\<close>): it exchanges signed messages with the other validators, agrees with them on
  the next block and hands it to the ledger as an event. Messages and blocks are encoded by
  \<^verbatim>\<open>src/neo-io\<close>, hashes and accounts are the fixed-width integers of \<^verbatim>\<open>src/neo-primitives\<close>, witnesses
  are scripts built by \<^verbatim>\<open>src/neo-vm/src/script_builder\<close>, and the transactions of a block are bound to
  its header by the Merkle tree of \<^verbatim>\<open>src/neo-crypto/src/hashes\<close>.

  \<^bold>\<open>How the code is rendered.\<close> A struct is a record, an enum a datatype, an integer of width \<open>w\<close> a
  word of that width (so that wrapping is the word operation; saturating and checked arithmetic are
  written out), \<^verbatim>\<open>usize\<close> is \<open>nat\<close> with its bounds stated where they matter, a \<^verbatim>\<open>HashMap\<close> an association
  list with distinct keys. A method with \<^verbatim>\<open>&mut self\<close> that returns \<^verbatim>\<open>Result\<close> has the type \<open>('s, 'e, 'a) run\<close>:
  it returns the result and the state after it, also when the result is an error, because Rust keeps
  the changes made before an early return. \<open>and_then\<close> is the \<^verbatim>\<open>?\<close> operator. Code outside the repository
  is an argument: the record \<open>crypto\<close> holds the hash functions and the curve decoding, the record \<open>env\<close>
  the signer, the clock, random numbers, the event channel, the files, bincode, the lru crate and
  the iteration order of hash maps; an answer that may change from call to call takes the number of
  the call.

  \<^bold>\<open>Foundations.\<close>
  \<^item> \<open>Neo_Prelude\<close>: machine integers, little-endian bytes, the result-and-state type, and the locale
    \<open>step_contract\<close>, by which a preorder on states is inherited by sequencing.
  \<^item> \<open>Neo_HashMap\<close>: the map interface as the locale \<open>hash_map\<close>, interpreted for the association lists.
  \<^item> \<open>Neo_IO\<close>: compact integers (\<^verbatim>\<open>var_int.rs\<close>), \<^verbatim>\<open>BinaryWriter\<close>, \<^verbatim>\<open>MemoryReader\<close>, arrays of
    serializable values. The locale \<open>serializable\<close> states what an implementation promises; \<open>parses\<close> is
    the calculus of encodings by which all round trips are proved. The compact integers form a prefix
    code and no read leaves the buffer.
  \<^item> \<open>Neo_UInt\<close>: \<^verbatim>\<open>UInt160\<close> and \<^verbatim>\<open>UInt256\<close>, their bytes and their order.
  \<^item> \<open>Neo_Script\<close>: push instructions, signature and multi-signature scripts, and their recognisers,
    which invert the builders.
  \<^item> \<open>Neo_Merkle\<close>: the Merkle tree, the buffer-based root, trimming by a bloom filter. The two root
    computations agree; trimming keeps the root and every flagged leaf.

  \<^bold>\<open>Consensus.\<close>
  \<^item> \<open>Dbft_Context\<close> (\<^verbatim>\<open>context\<close>): the round state, quorum arithmetic, speaker rotation, timers, vote
    tables, replay cache, resets, the block-size policy and the persisted image.
  \<^item> \<open>Dbft_Messages\<close> (\<^verbatim>\<open>messages\<close>): envelope and bodies with serializers, parsers and validators; every
    parser inverts its serializer.
  \<^item> \<open>Dbft_Service\<close>, \<open>Dbft_Handlers\<close> (\<^verbatim>\<open>service\<close>): start, resume, dispatch, timer, proposal, every
    handler, persistence and block assembly, in the order the code has them. Three fields of the state
    are the model's own: what was sent with the files at that moment, the files, and the log of block
    hashes signed. No branch of the code reads the logs.
  \<^item> \<open>Dbft_Round\<close>, \<open>Dbft_Refinement\<close>: the abstract protocol \<open>round_step\<close> as an inductive transition
    relation, and the proof that every handler and every public operation that works on a height,
    on every branch and with every error, is a sequence of its moves. Its parameter \<open>once\<close> rules out
    that the primary replaces its proposal within a view.
  \<^item> \<open>Dbft_Safety\<close>: the public operations as the datatype \<open>operation\<close> and their effect \<open>perform\<close>; the
    runs of a height; the invariant of a height, by rule induction over the abstract protocol. A
    height (\<open>reaches\<close>) begins with \<^verbatim>\<open>start_with_block_context\<close> on a service with empty logs and goes on
    with the operations of \<open>within_height\<close>: messages, timer, transactions, requests to change the view
    or to recover, and the settings that may change at any time. The operations that start or resume
    a height, and those that replace the validators, the key, the signer or the state file, are not
    steps of it; resuming from the state file is treated in \<open>Dbft_Faults\<close>. \<open>orderly_reaches\<close> are the
    heights in which the host in addition does not hand transactions to a primary that has already
    proposed in the view.
  \<^item> \<open>Dbft_Scenario\<close>: a concrete height of two validators on which the theorems are applied.
  \<^item> \<open>Dbft_Agreement\<close>: one block per height is signed, a Commit is sent only behind a quorum of
    preparations and after the state is on disk, a committed block carries a quorum of valid
    signatures, and nodes agree unless more than F validators signed two blocks. Quorum intersection
    is the locale \<open>byzantine_committee\<close>, interpreted for the quorum arithmetic of the code.
  \<^item> \<open>Dbft_Reproposal\<close>: a concrete height of four validators in which the host is not careful and the
    primary signs two blocks of one view.
  \<^item> \<open>Dbft_Faults\<close>: restart from the state file, refused events, messages that are not authentic, and
    committees of one.

  \<^bold>\<open>Hypotheses.\<close> The hash functions have outputs of the documented size. \<open>keys_match\<close>: what the service
  signs verifies under the key of its own entry in the validator list. Agreement assumes in addition
  that a signature in one of the two certificates which verifies under the key of an honest validator
  was made by that validator. Signing at most once per height, agreement and the restart theorem assume
  the careful host of \<open>orderly_reaches\<close>. The restart theorem assumes that decoding inverts encoding for
  bincode. Each property that has a hypothesis has a witness in which it holds for concrete functions.

  \<^bold>\<open>What the modelling showed.\<close> The primary accepts transactions again after it has proposed and even
  after it has sent its Commit; the new proposal removes the own commit, so that it can sign a second
  block in the same view. A committee of one validator never commits unless the height is resumed. A
  block whose event the bounded channel refuses is not reported again in its view.

  \<^bold>\<open>Not modelled.\<close> Logging, metrics and timings, which no decision of the code depends on. The
  execution engine of the virtual machine, native contracts, the memory pool, payload types other
  than those consensus builds, storage engines, network, RPC, wallets and the node's task
  orchestration, which the consensus service reaches only through its commands and events.
\<close>

end
